theory Spec2Isabelle
  imports Complex_Main "HOL-Library.AList" "HOL-Library.Multiset" "HOL-Library.Product_Lexorder"
begin

section \<open>The ledger (package ledger)\<close>

text \<open>
  The Go structs \<^verbatim>\<open>Expense\<close>, \<^verbatim>\<open>Debt\<close> and \<^verbatim>\<open>Balance\<close>. User and expense ids are Go
  \<^verbatim>\<open>int\<close>s that are only compared, never computed with. Amounts are \<^verbatim>\<open>float64\<close> in the
  source. In this first embedding they are exact rationals, so every statement about it
  is one about exact arithmetic; a second embedding further down rounds every operation
  as \<^verbatim>\<open>float64\<close> does. \<^verbatim>\<open>CreatedAt\<close> is a \<^verbatim>\<open>time.Time\<close>, kept as an opaque number.
\<close>

record Expense =
  ExpenseID :: int
  OwnerID :: int
  Users :: "int list"
  Amount :: rat
  Description :: string
  CreatedAt :: int

record Debt =
  UserID :: int
  Amount :: rat

record Balance =
  Balance :: rat
  Debit :: "Debt list"
  Credit :: "Debt list"

text \<open>
  \<^verbatim>\<open>debts\<close> is a \<^verbatim>\<open>map[int]map[int]float64\<close>. The outer map is only indexed, so it is a
  HOL map. The inner map of the subject is ranged over at the end, so an inner map is an
  association list with one pair per key, in the order the keys were first written. Go
  leaves the order of a \<^verbatim>\<open>range\<close> over a map open; every statement about the
  resulting slices below is therefore about their elements, never about their order.
\<close>

type_synonym debts_row = "(int \<times> rat) list"
type_synonym debts_map = "int \<rightharpoonup> debts_row"

text \<open>\<^verbatim>\<open>debts[k]\<close> read: a missing key gives the nil map, which reads as empty.\<close>

definition row :: "debts_map \<Rightarrow> int \<Rightarrow> debts_row" where
  "row debts k = (case debts k of None \<Rightarrow> [] | Some m \<Rightarrow> m)"

text \<open>\<^verbatim>\<open>m[k]\<close> read on an inner map: a missing key gives 0.\<close>

definition amount_at :: "debts_row \<Rightarrow> int \<Rightarrow> rat" where
  "amount_at m k = (case map_of m k of None \<Rightarrow> 0 | Some v \<Rightarrow> v)"

text \<open>\<^verbatim>\<open>if debts[k] == nil { debts[k] = make(map[int]float64) }\<close>\<close>

definition allocate :: "debts_map \<Rightarrow> int \<Rightarrow> debts_map" where
  "allocate debts k = (case debts k of None \<Rightarrow> debts(k \<mapsto> []) | Some m \<Rightarrow> debts)"

text \<open>\<^verbatim>\<open>debts[a][b] += x\<close>\<close>

definition add_amount :: "debts_map \<Rightarrow> int \<Rightarrow> int \<Rightarrow> rat \<Rightarrow> debts_map" where
  "add_amount debts a b x =
     debts(a \<mapsto> AList.update b (amount_at (row debts a) b + x) (row debts a))"

text \<open>The first inner loop of \<^verbatim>\<open>CalculateBalance\<close>: is the subject in \<^verbatim>\<open>expense.Users\<close>?\<close>

fun userTookPart :: "int list \<Rightarrow> int \<Rightarrow> bool \<Rightarrow> bool" where
  "userTookPart [] userID took = took"
| "userTookPart (expenseUserID # rest) userID took =
     userTookPart rest userID (if expenseUserID = userID then True else took)"

text \<open>The second inner loop: amend the debts map for every listed user but the owner.\<close>

fun amend_debts :: "int \<Rightarrow> rat \<Rightarrow> int list \<Rightarrow> debts_map \<Rightarrow> debts_map" where
  "amend_debts ownerID perPersonAmount [] debts = debts"
| "amend_debts ownerID perPersonAmount (expenseUserID # rest) debts =
     (if expenseUserID = ownerID then amend_debts ownerID perPersonAmount rest debts
      else
        let d1 = allocate debts expenseUserID;
            d2 = allocate d1 ownerID;
            d3 = add_amount d2 expenseUserID ownerID perPersonAmount;
            d4 = add_amount d3 ownerID expenseUserID (- perPersonAmount)
        in amend_debts ownerID perPersonAmount rest d4)"

text \<open>The outer loop over the expenses, on the pair of \<^verbatim>\<open>balance\<close> and \<^verbatim>\<open>debts\<close>.\<close>

fun expenses_loop :: "Expense list \<Rightarrow> int \<Rightarrow> rat \<times> debts_map \<Rightarrow> rat \<times> debts_map" where
  "expenses_loop [] userID st = st"
| "expenses_loop (expense # rest) userID (balance, debts) =
     (if \<not> userTookPart (Users expense) userID False
      then expenses_loop rest userID (balance, debts)
      else
        let owned = (OwnerID expense = userID);
            l = int (length (Users expense));
            perPersonAmount = Expense.Amount expense / of_int l;
            delta = (if owned then of_int (l - 1) * perPersonAmount else - perPersonAmount)
        in expenses_loop rest userID
             (balance + delta,
              amend_debts (OwnerID expense) perPersonAmount (Users expense) debts))"

text \<open>The final loop: split the subject's inner map into the debit and credit slices.\<close>

fun make_slices :: "debts_row \<Rightarrow> Debt list \<Rightarrow> Debt list \<Rightarrow> Debt list \<times> Debt list" where
  "make_slices [] debit credit = (debit, credit)"
| "make_slices ((userID, amount) # rest) debit credit =
     (if amount > 0
      then make_slices rest (debit @ [\<lparr>UserID = userID, Amount = amount\<rparr>]) credit
      else make_slices rest debit (credit @ [\<lparr>UserID = userID, Amount = - amount\<rparr>]))"

text \<open>\<^verbatim>\<open>userDebts := debts[userID]\<close> after the loop over the expenses.\<close>

definition userDebts :: "Expense list \<Rightarrow> int \<Rightarrow> debts_row" where
  "userDebts expenses userID = row (snd (expenses_loop expenses userID (0, Map.empty))) userID"

definition CalculateBalance :: "Expense list \<Rightarrow> int \<Rightarrow> Balance" where
  "CalculateBalance expenses userID =
     (let balance = fst (expenses_loop expenses userID (0, Map.empty));
          (debit, credit) = make_slices (userDebts expenses userID) [] []
      in \<lparr>Balance = balance, Debit = debit, Credit = credit\<rparr>)"

text \<open>The two expenses of \<^verbatim>\<open>TestCalculateBalance\<close>.\<close>

definition meal :: Expense where
  "meal = \<lparr>ExpenseID = 1, OwnerID = 1, Users = [1, 2, 3], Amount = 42,
           Description = [], CreatedAt = 0\<rparr>"

definition coffee :: Expense where
  "coffee = \<lparr>ExpenseID = 1, OwnerID = 2, Users = [1, 2], Amount = 8,
             Description = [], CreatedAt = 0\<rparr>"

section \<open>The ledger in float64 arithmetic\<close>

text \<open>
  The amounts of the source are \<^verbatim>\<open>float64\<close>. A finite \<^verbatim>\<open>float64\<close> is modelled as the
  rational number it denotes, the two zeros being one value (they compare equal, and
  the ledger never divides by an amount). Every arithmetic operation gives the exact
  result rounded to the nearest value with a significand of 53 bits and an exponent of
  at least -1074, ties going to the even significand. Results of magnitude \<open>2 ^ 1024\<close>
  and more, which are infinite in \<^verbatim>\<open>float64\<close>, are outside this model; it is used
  below on amounts near 1 only. Each operation is rounded on its own, with no fused
  multiplication and addition; the entries of the debit and credit slices come from one
  division, additions and subtractions only.
\<close>

text \<open>The number of binary digits of a positive integer, 0 for the others.\<close>

function bit_length :: "int \<Rightarrow> int" where
  "bit_length n = (if n \<le> 0 then 0 else 1 + bit_length (n div 2))"
  by pat_completeness auto
termination
  by (relation "measure nat") auto

declare bit_length.simps [simp del]

text \<open>The power of 2 with an integer exponent.\<close>

definition pow2 :: "int \<Rightarrow> rat" where
  "pow2 e = (if 0 \<le> e then 2 ^ nat e else 1 / 2 ^ nat (- e))"

text \<open>The binary exponent of a positive rational \<open>x\<close>: the \<open>k\<close> with \<open>2 ^ k \<le> x < 2 ^ (k + 1)\<close>.\<close>

definition ilog2 :: "rat \<Rightarrow> int" where
  "ilog2 x = (if 1 \<le> x then bit_length \<lfloor>x\<rfloor> - 1
              else - bit_length (\<lceil>1 / x\<rceil> - 1))"

text \<open>Rounding to the nearest integer, a tie going to the even one.\<close>

definition round_half_even :: "rat \<Rightarrow> int" where
  "round_half_even q =
     (let m = \<lfloor>q\<rfloor>; r = q - of_int m
      in if r < 1 / 2 then m else if 1 / 2 < r then m + 1 else if even m then m else m + 1)"

definition f64_round :: "rat \<Rightarrow> rat" where
  "f64_round x =
     (if x = 0 then 0
      else let e = max (ilog2 \<bar>x\<bar> - 52) (- 1074)
           in sgn x * of_int (round_half_even (\<bar>x\<bar> / pow2 e)) * pow2 e)"

definition f64_add :: "rat \<Rightarrow> rat \<Rightarrow> rat" where
  "f64_add x y = f64_round (x + y)"

definition f64_sub :: "rat \<Rightarrow> rat \<Rightarrow> rat" where
  "f64_sub x y = f64_round (x - y)"

definition f64_mul :: "rat \<Rightarrow> rat \<Rightarrow> rat" where
  "f64_mul x y = f64_round (x * y)"

definition f64_div :: "rat \<Rightarrow> rat \<Rightarrow> rat" where
  "f64_div x y = f64_round (x / y)"

text \<open>The conversion \<^verbatim>\<open>float64(l)\<close> of an integer.\<close>

definition f64_of_int :: "int \<Rightarrow> rat" where
  "f64_of_int l = f64_round (of_int l)"

text \<open>\<^verbatim>\<open>debts[a][b] += x\<close> and \<^verbatim>\<open>debts[a][b] -= x\<close> in \<^verbatim>\<open>float64\<close>.\<close>

definition add_amount64 :: "debts_map \<Rightarrow> int \<Rightarrow> int \<Rightarrow> rat \<Rightarrow> debts_map" where
  "add_amount64 debts a b x =
     debts(a \<mapsto> AList.update b (f64_add (amount_at (row debts a) b) x) (row debts a))"

definition sub_amount64 :: "debts_map \<Rightarrow> int \<Rightarrow> int \<Rightarrow> rat \<Rightarrow> debts_map" where
  "sub_amount64 debts a b x =
     debts(a \<mapsto> AList.update b (f64_sub (amount_at (row debts a) b) x) (row debts a))"

text \<open>The loops of \<^verbatim>\<open>CalculateBalance\<close> once more, with the operations of \<^verbatim>\<open>float64\<close>.\<close>

fun amend_debts64 :: "int \<Rightarrow> rat \<Rightarrow> int list \<Rightarrow> debts_map \<Rightarrow> debts_map" where
  "amend_debts64 ownerID perPersonAmount [] debts = debts"
| "amend_debts64 ownerID perPersonAmount (expenseUserID # rest) debts =
     (if expenseUserID = ownerID then amend_debts64 ownerID perPersonAmount rest debts
      else
        let d1 = allocate debts expenseUserID;
            d2 = allocate d1 ownerID;
            d3 = add_amount64 d2 expenseUserID ownerID perPersonAmount;
            d4 = sub_amount64 d3 ownerID expenseUserID perPersonAmount
        in amend_debts64 ownerID perPersonAmount rest d4)"

fun expenses_loop64 :: "Expense list \<Rightarrow> int \<Rightarrow> rat \<times> debts_map \<Rightarrow> rat \<times> debts_map" where
  "expenses_loop64 [] userID st = st"
| "expenses_loop64 (expense # rest) userID (balance, debts) =
     (if \<not> userTookPart (Users expense) userID False
      then expenses_loop64 rest userID (balance, debts)
      else
        let owned = (OwnerID expense = userID);
            l = int (length (Users expense));
            perPersonAmount = f64_div (Expense.Amount expense) (f64_of_int l);
            delta = (if owned then f64_mul (f64_of_int (l - 1)) perPersonAmount
                     else - perPersonAmount)
        in expenses_loop64 rest userID
             (f64_add balance delta,
              amend_debts64 (OwnerID expense) perPersonAmount (Users expense) debts))"

definition userDebts64 :: "Expense list \<Rightarrow> int \<Rightarrow> debts_row" where
  "userDebts64 expenses userID =
     row (snd (expenses_loop64 expenses userID (0, Map.empty))) userID"

definition CalculateBalance64 :: "Expense list \<Rightarrow> int \<Rightarrow> Balance" where
  "CalculateBalance64 expenses userID =
     (let balance = fst (expenses_loop64 expenses userID (0, Map.empty));
          (debit, credit) = make_slices (userDebts64 expenses userID) [] []
      in \<lparr>Balance = balance, Debit = debit, Credit = credit\<rparr>)"

text \<open>
  Three expenses of 0.2, 0.4 and 0.6 paid by user 2 for users 1 and 2, and one of 1.2
  paid by user 1 for users 2 and 1, each amount being the \<^verbatim>\<open>float64\<close> nearest to the
  decimal and each list of users as \<^verbatim>\<open>CreateExpense\<close> stores it.
\<close>

definition paid_by_2 :: "rat \<Rightarrow> Expense" where
  "paid_by_2 x = \<lparr>ExpenseID = 0, OwnerID = 2, Users = [1, 2], Amount = f64_round x,
                   Description = ''Coffee'', CreatedAt = 0\<rparr>"

definition paid_by_1 :: "rat \<Rightarrow> Expense" where
  "paid_by_1 x = \<lparr>ExpenseID = 0, OwnerID = 1, Users = [2, 1], Amount = f64_round x,
                   Description = ''Coffee'', CreatedAt = 0\<rparr>"


section \<open>The expense store (package database)\<close>

text \<open>
  The in-memory database: a slice of users and a slice of expenses. A handle points back
  to its database, so an operation on a handle is an operation on the database value.
\<close>

record userWithPassword =
  ID :: int
  Email :: string
  Password :: string

record InMemoryDatabase =
  users :: "userWithPassword list"
  expenses :: "Expense list"

definition NewInMemoryDatabase :: InMemoryDatabase where
  "NewInMemoryDatabase = \<lparr>users = [], expenses = []\<rparr>"

text \<open>
  \<^verbatim>\<open>CreateExpense\<close> appends the owner to the \<^verbatim>\<open>Users\<close> of its copy of the expense,
  numbers the expense and appends it to the database.
\<close>

definition CreateExpense :: "Expense \<Rightarrow> InMemoryDatabase \<Rightarrow> InMemoryDatabase" where
  "CreateExpense expense d =
     (let e1 = expense\<lparr>Users := Users expense @ [OwnerID expense]\<rparr>;
          e2 = e1\<lparr>ExpenseID := int (length (expenses d)) + 1\<rparr>
      in d\<lparr>expenses := expenses d @ [e2]\<rparr>)"

text \<open>\<^verbatim>\<open>GetExpenses\<close> returns the slice of all expenses; its \<^verbatim>\<open>userID\<close> is not used.\<close>

definition GetExpenses :: "InMemoryDatabase \<Rightarrow> int \<Rightarrow> Expense list" where
  "GetExpenses d userID = expenses d"

text \<open>
  The PostgreSQL handle reads the tables \<^verbatim>\<open>expenses\<close> and \<^verbatim>\<open>expenses_users\<close>. A table
  is the list of its rows; a row of \<^verbatim>\<open>expenses_users\<close> is the pair of \<^verbatim>\<open>expense_id\<close> and
  \<^verbatim>\<open>user_id\<close>. The query of \<^verbatim>\<open>GetExpenses\<close> joins the two tables on the expense id and
  orders by expense id and creation time; it has no condition on the user. Scanning a
  row and parsing its creation time are taken to succeed.
\<close>

record expenses_row =
  row_id :: int
  row_user_id :: int
  row_description :: string
  row_amount :: rat
  row_created_at :: int

record PgTables =
  expenses_table :: "expenses_row list"
  expenses_users_table :: "(int \<times> int) list"

definition query_rows :: "PgTables \<Rightarrow> (expenses_row \<times> int) list" where
  "query_rows t =
     sort_key (\<lambda>(e, ue_user_id). (row_id e, row_created_at e))
       (concat (map (\<lambda>e. map (\<lambda>ue. (e, snd ue))
                               (filter (\<lambda>ue. row_id e = fst ue) (expenses_users_table t)))
                    (expenses_table t)))"

text \<open>
  The loop over the rows fills \<^verbatim>\<open>expensesMap\<close>, here an association list in the order
  the expense ids first appear: a new id gets an expense with no users, then the user of
  the row is appended.
\<close>

fun scan_rows :: "(expenses_row \<times> int) list \<Rightarrow> (int \<times> Expense) list \<Rightarrow> (int \<times> Expense) list" where
  "scan_rows [] expensesMap = expensesMap"
| "scan_rows ((e, userID) # rest) expensesMap =
     (let m1 = (case map_of expensesMap (row_id e) of
                  None \<Rightarrow> AList.update (row_id e)
                            \<lparr>ExpenseID = row_id e, OwnerID = row_user_id e, Users = [],
                               Amount = row_amount e, Description = row_description e,
                               CreatedAt = row_created_at e\<rparr> expensesMap
                | Some x \<Rightarrow> expensesMap);
          m2 = AList.map_entry (row_id e) (\<lambda>x. x\<lparr>Users := Users x @ [userID]\<rparr>) m1
      in scan_rows rest m2)"

definition PgGetExpenses :: "PgTables \<Rightarrow> int \<Rightarrow> Expense list" where
  "PgGetExpenses t userID = map snd (scan_rows (query_rows t) [])"

section \<open>The balance cache (package cache)\<close>

text \<open>
  The interface \<^verbatim>\<open>Cache\<close> has two implementations. The in-memory cache is a map from
  user id to balance. The Redis cache keeps, under the key made from the user id, the
  JSON text of a balance with a time to live; the server is modelled as a map from user
  id to the balance and the time at which the entry expires, together with whether the
  server can be reached. Time is counted in seconds.
\<close>

record Redis =
  reachable :: bool
  stored :: "int \<rightharpoonup> Balance \<times> nat"

datatype Cache = InMemoryCache "int \<rightharpoonup> Balance" | RedisCache Redis

datatype failure = RedisFailure

definition NewInMemoryCache :: Cache where
  "NewInMemoryCache = InMemoryCache Map.empty"

definition cacheEntryTTL :: nat where
  "cacheEntryTTL = 5"

text \<open>The reply of \<^verbatim>\<open>rdb.Get\<close>: the value, \<^verbatim>\<open>redis.Nil\<close> for no live entry, or an error.\<close>

datatype reply = Value Balance | RedisNil | Failed

definition rdb_Get :: "Redis \<Rightarrow> nat \<Rightarrow> int \<Rightarrow> reply" where
  "rdb_Get r now userID =
     (if \<not> reachable r then Failed
      else case stored r userID of
             None \<Rightarrow> RedisNil
           | Some (balance, expiry) \<Rightarrow> if now < expiry then Value balance else RedisNil)"

definition setBalanceWithRdb :: "Redis \<Rightarrow> nat \<Rightarrow> Balance \<Rightarrow> int \<Rightarrow> failure + Redis" where
  "setBalanceWithRdb r now balance userID =
     (if \<not> reachable r then Inl RedisFailure
      else Inr (r\<lparr>stored := (stored r)(userID \<mapsto> (balance, now + cacheEntryTTL))\<rparr>))"

definition SetBalance :: "Cache \<Rightarrow> nat \<Rightarrow> Balance \<Rightarrow> int \<Rightarrow> failure + Cache" where
  "SetBalance c now balance userID =
     (case c of
        InMemoryCache entries \<Rightarrow> Inr (InMemoryCache (entries(userID \<mapsto> balance)))
      | RedisCache r \<Rightarrow>
          (case setBalanceWithRdb r now balance userID of
             Inl f \<Rightarrow> Inl f
           | Inr r' \<Rightarrow> Inr (RedisCache r')))"

text \<open>
  \<^verbatim>\<open>GetBalance\<close> returns the balance and the cache as it is afterwards. The in-memory
  cache returns \<^verbatim>\<open>c.entries[userID]\<close>, the zero \<^verbatim>\<open>Balance\<close> for a missing key, and does
  not use the database. The Redis cache computes and stores the balance on
  \<^verbatim>\<open>redis.Nil\<close> and panics on any other error.
\<close>

definition GetBalance :: "Cache \<Rightarrow> InMemoryDatabase \<Rightarrow> nat \<Rightarrow> int \<Rightarrow> failure + Balance \<times> Cache" where
  "GetBalance c d now userID =
     (case c of
        InMemoryCache entries \<Rightarrow>
          Inr (case entries userID of
                 None \<Rightarrow> \<lparr>Balance = 0, Debit = [], Credit = []\<rparr>
               | Some balance \<Rightarrow> balance, c)
      | RedisCache r \<Rightarrow>
          (case rdb_Get r now userID of
             RedisNil \<Rightarrow>
               (let expenses = GetExpenses d userID;
                    balance = CalculateBalance expenses userID
                in case setBalanceWithRdb r now balance userID of
                     Inl f \<Rightarrow> Inl f
                   | Inr r' \<Rightarrow> Inr (balance, RedisCache r'))
           | Failed \<Rightarrow> Inl RedisFailure
           | Value balance \<Rightarrow> Inr (balance, c)))"

section \<open>The expenses endpoint (package api)\<close>

text \<open>
  The decoded body of a request to create an expense; the list of \<^verbatim>\<open>{id}\<close> objects is
  the list of the ids. A request is its method and its body, \<open>None\<close> when the body
  does not decode.
\<close>

record createExpenseRequest =
  reqDescription :: string
  reqAmount :: rat
  reqCreatedAt :: string
  reqUsers :: "int list"

record Request =
  Method :: string
  Body :: "createExpenseRequest option"

text \<open>
  The response writer: the status code, fixed by the first \<^verbatim>\<open>WriteHeader\<close> (a write
  with no status set fixes 200), and the messages written to the body.
\<close>

record ResponseWriter =
  status :: "nat option"
  written :: "string list"

definition WriteHeader :: "nat \<Rightarrow> ResponseWriter \<Rightarrow> ResponseWriter" where
  "WriteHeader code rw = (case status rw of None \<Rightarrow> rw\<lparr>status := Some code\<rparr> | Some c \<Rightarrow> rw)"

definition writeJSON :: "ResponseWriter \<Rightarrow> string \<Rightarrow> ResponseWriter" where
  "writeJSON rw data = (WriteHeader 200 rw)\<lparr>written := written rw @ [data]\<rparr>"

definition writeError :: "ResponseWriter \<Rightarrow> nat \<Rightarrow> string \<Rightarrow> ResponseWriter" where
  "writeError rw code message = writeJSON (WriteHeader code rw) message"

record API =
  db :: InMemoryDatabase
  cache :: Cache

text \<open>
  The loop of \<^verbatim>\<open>postExpenses\<close> that ensures the user ids do not include the submitter
  and are unique; it returns the message of the first error.
\<close>

fun check_users :: "int \<Rightarrow> int list \<Rightarrow> (int \<rightharpoonup> bool) \<Rightarrow> string option" where
  "check_users userID [] uniqueUsers = None"
| "check_users userID (u # rest) uniqueUsers =
     (if u = userID then Some ''user list must not include self''
      else if uniqueUsers u \<noteq> None then Some ''duplicate user in user list''
      else check_users userID rest (uniqueUsers(u \<mapsto> True)))"

text \<open>
  \<^verbatim>\<open>postExpenses\<close>, with \<^verbatim>\<open>time.Parse(time.RFC3339, _)\<close> as the parameter
  \<open>parseTime\<close> and the clock as \<open>now\<close>. The check of the method writes its error
  and goes on. A panic is the left result, with the state it leaves behind.
\<close>

definition postExpenses ::
  "(string \<Rightarrow> int option) \<Rightarrow> nat \<Rightarrow> Request \<Rightarrow> int \<Rightarrow> API \<Rightarrow> ResponseWriter
     \<Rightarrow> failure \<times> API \<times> ResponseWriter + API \<times> ResponseWriter" where
  "postExpenses parseTime now r userID api rw0 =
     (let rw = (if Method r \<noteq> ''POST'' then writeError rw0 405 ''method not allowed'' else rw0)
      in case Body r of
           None \<Rightarrow> Inr (api, writeError rw 400 ''unable to decode and parse json'')
         | Some e \<Rightarrow>
             if reqDescription e = [] then
               Inr (api, writeError rw 400 ''description must not be empty'')
             else if reqAmount e \<le> 0 then
               Inr (api, writeError rw 400 ''amount must be positive'')
             else case parseTime (reqCreatedAt e) of
               None \<Rightarrow> Inr (api, writeError rw 400 ''unable to parse created_at'')
             | Some createdAt \<Rightarrow>
                 if length (reqUsers e) < 1 then
                   Inr (api, writeError rw 400
                          ''at least one other user must be included in an expense'')
                 else case check_users userID (reqUsers e) Map.empty of
                   Some message \<Rightarrow> Inr (api, writeError rw 400 message)
                 | None \<Rightarrow>
                     (let expense = \<lparr>ExpenseID = 0, OwnerID = userID, Users = reqUsers e,
                                       Amount = reqAmount e, Description = reqDescription e,
                                       CreatedAt = createdAt\<rparr>;
                          d = CreateExpense expense (db api);
                          expenses = GetExpenses d userID;
                          balance = CalculateBalance expenses userID
                      in case SetBalance (cache api) now balance userID of
                           Inl f \<Rightarrow> Inl (f, api\<lparr>db := d\<rparr>, rw)
                         | Inr c \<Rightarrow> Inr (api\<lparr>db := d, cache := c\<rparr>, WriteHeader 201 rw)))"

text \<open>\<^verbatim>\<open>getBalance\<close>: the balance of the cache is written as the response.\<close>

definition getBalance :: "nat \<Rightarrow> int \<Rightarrow> API \<Rightarrow> failure + Balance \<times> API" where
  "getBalance now userID api =
     (case GetBalance (cache api) (db api) now userID of
        Inl f \<Rightarrow> Inl f
      | Inr (balance, c) \<Rightarrow> Inr (balance, api\<lparr>cache := c\<rparr>))"

section \<open>Example histories\<close>

text \<open>
  An expense whose \<^verbatim>\<open>Users\<close> lists user 2 twice, an expense whose \<^verbatim>\<open>Users\<close> omits its
  owner, and a history in which user 1 and user 2 end up even while user 1 owes user 3
  and is owed by user 4.
\<close>

definition twice_listed :: Expense where
  "twice_listed = \<lparr>ExpenseID = 1, OwnerID = 1, Users = [1, 2, 2], Amount = 3,
                   Description = [], CreatedAt = 0\<rparr>"

definition gift :: Expense where
  "gift = \<lparr>ExpenseID = 3, OwnerID = 1, Users = [2, 3], Amount = 10,
           Description = [], CreatedAt = 0\<rparr>"

definition even_history :: "Expense list" where
  "even_history =
     [coffee,
      \<lparr>ExpenseID = 2, OwnerID = 1, Users = [1, 2], Amount = 8, Description = [], CreatedAt = 0\<rparr>,
      \<lparr>ExpenseID = 3, OwnerID = 3, Users = [1, 3], Amount = 10, Description = [], CreatedAt = 0\<rparr>,
      \<lparr>ExpenseID = 4, OwnerID = 1, Users = [1, 4], Amount = 6, Description = [], CreatedAt = 0\<rparr>]"

text \<open>A database holding the meal, as \<^verbatim>\<open>CreateExpense\<close> stores it, and a request.\<close>

definition meal_db :: InMemoryDatabase where
  "meal_db = CreateExpense (meal\<lparr>Users := [2, 3]\<rparr>) NewInMemoryDatabase"

definition coffee_request :: Request where
  "coffee_request =
     \<lparr>Method = ''POST'',
      Body = Some \<lparr>reqDescription = ''Coffee'', reqAmount = 8,
                   reqCreatedAt = ''2016-01-03T15:04:05Z'', reqUsers = [1]\<rparr>\<rparr>"

definition meal_request :: Request where
  "meal_request =
     \<lparr>Method = ''POST'',
      Body = Some \<lparr>reqDescription = ''Food'', reqAmount = 42,
                   reqCreatedAt = ''2021-01-01T15:04:05Z'', reqUsers = [2, 3]\<rparr>\<rparr>"

text \<open>A stand-in for the parser of timestamps: the empty text does not parse.\<close>

definition parse_nonempty :: "string \<Rightarrow> int option" where
  "parse_nonempty s = (if s = [] then None else Some (int (length s)))"

section \<open>Notions used in the statements and proofs\<close>

text \<open>
  \<open>bump\<close> is \<^verbatim>\<open>m[k] += x\<close> on an inner map; \<open>row_amend\<close> is what the second inner
  loop does to the inner map of one user.
\<close>

definition bump :: "int \<Rightarrow> rat \<Rightarrow> debts_row \<Rightarrow> debts_row" where
  "bump k x R = AList.update k (amount_at R k + x) R"

fun row_amend :: "int \<Rightarrow> int \<Rightarrow> rat \<Rightarrow> int list \<Rightarrow> debts_row \<Rightarrow> debts_row" where
  "row_amend u ownerID p [] R = R"
| "row_amend u ownerID p (x # xs) R =
     (if x = ownerID then row_amend u ownerID p xs R
      else row_amend u ownerID p xs
             (if x = u then bump ownerID p R
              else if ownerID = u then bump x (- p) R else R))"

text \<open>
  \<open>delta_of\<close> is the \<^verbatim>\<open>delta\<close> that the loop over the expenses adds to the balance
  for an expense the user takes part in; \<open>contrib\<close> is what an expense adds to the
  balance of a user: nothing if the user is not listed.
\<close>

definition delta_of :: "Expense \<Rightarrow> int \<Rightarrow> rat" where
  "delta_of expense userID =
     (let owned = (OwnerID expense = userID);
          l = int (length (Users expense));
          perPersonAmount = Expense.Amount expense / of_int l
      in if owned then of_int (l - 1) * perPersonAmount else - perPersonAmount)"

definition contrib :: "int \<Rightarrow> Expense \<Rightarrow> rat" where
  "contrib u e = (if u \<in> set (Users e) then delta_of e u else 0)"

text \<open>
  An inner map seen as its set of keys and its total lookup function; two such views
  are joined by uniting the keys and adding the amounts.
\<close>

definition keys_of :: "debts_row \<Rightarrow> int set" where
  "keys_of R = fst ` set R"

definition view :: "debts_row \<Rightarrow> int set \<times> (int \<Rightarrow> rat)" where
  "view R = (keys_of R, amount_at R)"

definition join :: "int set \<times> (int \<Rightarrow> rat) \<Rightarrow> int set \<times> (int \<Rightarrow> rat) \<Rightarrow> int set \<times> (int \<Rightarrow> rat)" where
  "join a b = (fst a \<union> fst b, \<lambda>j. snd a j + snd b j)"

definition share :: "Expense \<Rightarrow> rat" where
  "share e = Expense.Amount e / of_int (int (length (Users e)))"

definition expense_view :: "int \<Rightarrow> Expense \<Rightarrow> int set \<times> (int \<Rightarrow> rat)" where
  "expense_view u e =
     (if u \<in> set (Users e) then view (row_amend u (OwnerID e) (share e) (Users e) [])
      else ({}, \<lambda>j. 0))"

text \<open>
  The conditions on a request that the spec lists for a valid expense: a description, a
  positive amount, a creation time that parses, and a non-empty list of other users
  without the submitter and without duplicates.
\<close>

definition valid_request :: "(string \<Rightarrow> int option) \<Rightarrow> int \<Rightarrow> Request \<Rightarrow> bool" where
  "valid_request parseTime userID r =
     (case Body r of
        None \<Rightarrow> False
      | Some e \<Rightarrow> reqDescription e \<noteq> [] \<and> 0 < reqAmount e
                 \<and> parseTime (reqCreatedAt e) \<noteq> None \<and> reqUsers e \<noteq> []
                 \<and> userID \<notin> set (reqUsers e) \<and> distinct (reqUsers e))"

text \<open>The entry a cache holds for a user, with its time of expiry where it has one.\<close>

definition cache_entry :: "Cache \<Rightarrow> int \<Rightarrow> (Balance \<times> nat option) option" where
  "cache_entry c userID =
     (case c of
        InMemoryCache entries \<Rightarrow> map_option (\<lambda>b. (b, None)) (entries userID)
      | RedisCache r \<Rightarrow> map_option (\<lambda>(b, t). (b, Some t)) (stored r userID))"

text \<open>A cache holds a live entry for a user at a time.\<close>

definition holds_entry :: "Cache \<Rightarrow> nat \<Rightarrow> int \<Rightarrow> bool" where
  "holds_entry c now userID =
     (case cache_entry c userID of
        None \<Rightarrow> False
      | Some (b, None) \<Rightarrow> True
      | Some (b, Some t) \<Rightarrow> now < t)"

text \<open>Tables holding the meal with its three users, and a fresh API and response.\<close>

definition meal_tables :: PgTables where
  "meal_tables =
     \<lparr>expenses_table = [\<lparr>row_id = 1, row_user_id = 1, row_description = ''Dinner'',
                           row_amount = 42, row_created_at = 0\<rparr>],
      expenses_users_table = [(1, 1), (1, 2), (1, 3)]\<rparr>"

definition meal_api :: API where
  "meal_api = \<lparr>db = meal_db, cache = NewInMemoryCache\<rparr>"

definition fresh_response :: ResponseWriter where
  "fresh_response = \<lparr>status = None, written = []\<rparr>"

text \<open>A Redis server that can be reached and holds nothing, and a request for nothing.\<close>

definition empty_redis :: Redis where
  "empty_redis = \<lparr>reachable = True, stored = Map.empty\<rparr>"

definition free_request :: Request where
  "free_request =
     \<lparr>Method = ''POST'',
      Body = Some \<lparr>reqDescription = ''Coffee'', reqAmount = 0,
                   reqCreatedAt = ''2016-01-03T15:04:05Z'', reqUsers = [1]\<rparr>\<rparr>"

text \<open>
  The response writer after the check of the method, the state of the API that a call
  of \<^verbatim>\<open>postExpenses\<close> leaves behind, and the expense that a valid request with creation
  time \<open>t\<close> leaves in the database.
\<close>

definition checked_method :: "Request \<Rightarrow> ResponseWriter \<Rightarrow> ResponseWriter" where
  "checked_method r rw =
     (if Method r \<noteq> ''POST'' then writeError rw 405 ''method not allowed'' else rw)"

definition state_after :: "failure \<times> API \<times> ResponseWriter + API \<times> ResponseWriter \<Rightarrow> API" where
  "state_after res = (case res of Inl (f, a, rw) \<Rightarrow> a | Inr (a, rw) \<Rightarrow> a)"

definition stored_expense :: "createExpenseRequest \<Rightarrow> int \<Rightarrow> int \<Rightarrow> InMemoryDatabase \<Rightarrow> Expense" where
  "stored_expense e t userID d =
     \<lparr>ExpenseID = int (length (expenses d)) + 1, OwnerID = userID,
        Users = reqUsers e @ [userID], Amount = reqAmount e,
        Description = reqDescription e, CreatedAt = t\<rparr>"

section \<open>Properties of the ledger loops\<close>

text \<open>The definitions that evaluate \<^verbatim>\<open>CalculateBalance\<close> on a given history.\<close>

lemmas ledger_eval =
  CalculateBalance_def userDebts_def row_def amount_at_def
  allocate_def add_amount_def Let_def

lemma userTookPart_iff: "userTookPart xs u t = (t \<or> u \<in> set xs)"
  by (induction xs arbitrary: t) auto

lemma row_allocate: "row (allocate d k) u = row d u"
  by (simp add: row_def allocate_def split: option.splits)

lemma row_add_amount:
  "row (add_amount d a b x) u = (if a = u then bump b x (row d u) else row d u)"
  by (simp add: row_def add_amount_def bump_def)

lemma row_amend_debts:
  "row (amend_debts ownerID p xs d) u = row_amend u ownerID p xs (row d u)"
  by (induction xs arbitrary: d) (auto simp: Let_def row_allocate row_add_amount)

lemma sum_update:
  "sum_list (map snd (AList.update k v R)) = sum_list (map snd R) - amount_at R k + v"
  by (induction R) (simp_all add: amount_at_def)

lemma sum_bump: "sum_list (map snd (bump k x R)) = sum_list (map snd R) + x"
  by (simp add: bump_def sum_update)

lemma distinct_bump: "distinct (map fst R) \<Longrightarrow> distinct (map fst (bump k x R))"
  by (simp add: bump_def distinct_update)

lemma keys_bump: "fst ` set (bump k x R) = insert k (fst ` set R)"
  using dom_update [of k "amount_at R k + x" R]
  by (simp add: bump_def dom_map_of_conv_image_fst)

lemma amount_at_bump: "amount_at (bump k x R) j = amount_at R j + (if j = k then x else 0)"
  by (simp add: bump_def amount_at_def update_conv')

lemma make_slices_eq:
  "make_slices R debit credit =
     (debit @ map (\<lambda>(k, v). \<lparr>UserID = k, Amount = v\<rparr>) (filter (\<lambda>(k, v). v > 0) R),
      credit @ map (\<lambda>(k, v). \<lparr>UserID = k, Amount = - v\<rparr>) (filter (\<lambda>(k, v). \<not> v > 0) R))"
  by (induction R debit credit rule: make_slices.induct) simp_all

lemma Debit_CalculateBalance:
  "Debit (CalculateBalance es u) =
     map (\<lambda>(k, v). \<lparr>UserID = k, Amount = v\<rparr>) (filter (\<lambda>(k, v). v > 0) (userDebts es u))"
  by (simp add: CalculateBalance_def make_slices_eq)

lemma Credit_CalculateBalance:
  "Credit (CalculateBalance es u) =
     map (\<lambda>(k, v). \<lparr>UserID = k, Amount = - v\<rparr>) (filter (\<lambda>(k, v). \<not> v > 0) (userDebts es u))"
  by (simp add: CalculateBalance_def make_slices_eq)

lemma Balance_CalculateBalance:
  "Balance (CalculateBalance es u) = fst (expenses_loop es u (0, Map.empty))"
  by (simp add: CalculateBalance_def split: prod.splits)

lemma distinct_row_amend:
  "distinct (map fst R) \<Longrightarrow> distinct (map fst (row_amend u ownerID p xs R))"
  by (induction xs arbitrary: R) (simp_all add: distinct_bump)

lemma distinct_row_loop:
  "distinct (map fst (row d u)) \<Longrightarrow>
   distinct (map fst (row (snd (expenses_loop es u (b, d))) u))"
  by (induction es arbitrary: b d) (simp_all add: Let_def row_amend_debts distinct_row_amend)

lemma distinct_userDebts: "distinct (map fst (userDebts es u))"
  unfolding userDebts_def by (rule distinct_row_loop) (simp add: row_def)

lemma sum_row_amend:
  "sum_list (map snd (row_amend u ownerID p xs R)) =
     sum_list (map snd R) +
     (if u = ownerID then - p * of_nat (length (filter (\<lambda>x. x \<noteq> ownerID) xs))
      else p * of_nat (count_list xs u))"
proof (induction xs arbitrary: R)
  case Nil
  then show ?case by simp
next
  case (Cons x xs)
  show ?case
  proof (cases "x = ownerID")
    case True
    then show ?thesis using Cons.IH [of R] by simp
  next
    case False
    show ?thesis
    proof (cases "x = u")
      case True
      with False show ?thesis
        using Cons.IH [of "bump ownerID p R"] by (simp add: sum_bump distrib_left)
    next
      case xu: False
      show ?thesis
      proof (cases "ownerID = u")
        case True
        with False xu show ?thesis
          using Cons.IH [of "bump x (- p) R"] by (simp add: sum_bump distrib_left)
      next
        case False
        with \<open>x \<noteq> ownerID\<close> xu show ?thesis
          using Cons.IH [of R] by simp
      qed
    qed
  qed
qed

lemma expenses_loop_append:
  "expenses_loop (es1 @ es2) u st = expenses_loop es2 u (expenses_loop es1 u st)"
  by (induction es1 u st rule: expenses_loop.induct) (simp_all add: Let_def)

lemma fst_expenses_loop:
  "fst (expenses_loop es u (b, d)) = b + sum_list (map (contrib u) es)"
  by (induction es arbitrary: b d)
    (simp_all add: Let_def contrib_def delta_of_def userTookPart_iff)

lemma length_filter_neq:
  "distinct xs \<Longrightarrow> a \<in> set xs \<Longrightarrow> int (length (filter (\<lambda>x. x \<noteq> a) xs)) = int (length xs) - 1"
proof (induction xs)
  case Nil
  then show ?case by simp
next
  case (Cons x xs)
  show ?case
  proof (cases "x = a")
    case True
    then have "a \<notin> set xs" using Cons.prems by simp
    then have "filter (\<lambda>x. x \<noteq> a) xs = xs" by (auto simp: filter_id_conv)
    with True show ?thesis by simp
  next
    case False
    with Cons show ?thesis by simp
  qed
qed

lemma count_list_distinct:
  "distinct xs \<Longrightarrow> a \<in> set xs \<Longrightarrow> count_list xs a = 1"
  by (induction xs) (auto simp: count_list_0_iff)

lemma sum_row_amend_distinct:
  assumes "distinct xs" "u \<in> set xs"
  shows "sum_list (map snd (row_amend u ownerID p xs R)) =
           sum_list (map snd R) +
           (if u = ownerID then - (of_int (int (length xs) - 1) * p) else p)"
proof (cases "u = ownerID")
  case True
  have "rat_of_nat (length (filter (\<lambda>x. x \<noteq> ownerID) xs)) = of_int (int (length xs) - 1)"
    using length_filter_neq [OF assms(1), of ownerID] assms(2) True
    by (metis of_int_of_nat_eq)
  with True show ?thesis by (simp add: sum_row_amend)
next
  case False
  with assms show ?thesis by (simp add: sum_row_amend count_list_distinct)
qed

lemma sum_row_loop:
  "\<forall>e\<in>set es. distinct (Users e) \<Longrightarrow>
   sum_list (map snd (row (snd (expenses_loop es u (b, d))) u)) + fst (expenses_loop es u (b, d))
     = sum_list (map snd (row d u)) + b"
proof (induction es arbitrary: b d)
  case Nil
  then show ?case by simp
next
  case (Cons e es)
  show ?case
  proof (cases "u \<in> set (Users e)")
    case False
    then show ?thesis using Cons by (simp add: userTookPart_iff)
  next
    case True
    have d: "distinct (Users e)" using Cons.prems by simp
    have rest: "\<forall>e\<in>set es. distinct (Users e)" using Cons.prems by simp
    show ?thesis
      using True Cons.IH [OF rest]
      by (simp add: userTookPart_iff Let_def row_amend_debts
          sum_row_amend_distinct [OF d True] delta_of_def)
  qed
qed

lemma sum_slices:
  "sum_list (map Debt.Amount (map (\<lambda>(k, v). \<lparr>UserID = k, Amount = - v\<rparr>) (filter (\<lambda>(k, v). \<not> v > 0) R)))
   - sum_list (map Debt.Amount (map (\<lambda>(k, v). \<lparr>UserID = k, Amount = v\<rparr>) (filter (\<lambda>(k, v). v > 0) R)))
   = - sum_list (map snd R)"
  by (induction R) auto

lemma UserID_slice_comp:
  "UserID \<circ> (\<lambda>(k, v). \<lparr>UserID = k, Amount = f v\<rparr>) = fst"
  by (auto simp: fun_eq_iff)

lemma distinct_Debit: "distinct (map UserID (Debit (CalculateBalance es u)))"
  using UserID_slice_comp [where f = "\<lambda>v. v"]
  by (simp add: Debit_CalculateBalance distinct_map_filter distinct_userDebts)

lemma distinct_Credit: "distinct (map UserID (Credit (CalculateBalance es u)))"
  using UserID_slice_comp [where f = "\<lambda>v. - v"]
  by (simp add: Credit_CalculateBalance distinct_map_filter distinct_userDebts)

lemma sum_userDebts:
  assumes "\<forall>e\<in>set es. distinct (Users e)"
  shows "sum_list (map snd (userDebts es u)) = - Balance (CalculateBalance es u)"
  using sum_row_loop [OF assms, of u 0 Map.empty]
  by (simp add: userDebts_def Balance_CalculateBalance row_def)

lemma balance_is_credit_minus_debit:
  assumes "\<forall>e\<in>set es. distinct (Users e)"
  shows "Balance (CalculateBalance es u) =
           sum_list (map Debt.Amount (Credit (CalculateBalance es u)))
           - sum_list (map Debt.Amount (Debit (CalculateBalance es u)))"
  using sum_userDebts [OF assms, of u] sum_slices [of "userDebts es u"]
  by (simp add: Debit_CalculateBalance Credit_CalculateBalance)

lemma sum_contrib_one:
  assumes d: "distinct (Users e)" and o: "OwnerID e \<in> set (Users e)"
    and fin: "finite U" and sub: "set (Users e) \<subseteq> U"
  shows "(\<Sum>u\<in>U. contrib u e) = 0"
proof -
  let ?S = "set (Users e)"
  let ?p = "Expense.Amount e / of_int (int (length (Users e)))"
  have "(\<Sum>u\<in>U. contrib u e) = (\<Sum>u\<in>U \<inter> ?S. delta_of e u)"
    unfolding contrib_def using fin by (simp add: sum.inter_restrict)
  also have "U \<inter> ?S = ?S" using sub by blast
  also have "(\<Sum>u\<in>?S. delta_of e u) = delta_of e (OwnerID e) + (\<Sum>u\<in>?S - {OwnerID e}. delta_of e u)"
    using o by (simp add: sum.remove)
  also have "(\<Sum>u\<in>?S - {OwnerID e}. delta_of e u) = (\<Sum>u\<in>?S - {OwnerID e}. - ?p)"
    by (rule sum.cong) (auto simp: delta_of_def)
  also have "\<dots> = of_nat (card (?S - {OwnerID e})) * (- ?p)"
    by simp
  also have "card (?S - {OwnerID e}) = length (Users e) - 1"
    using o d by (simp add: distinct_card)
  also have "rat_of_nat (length (Users e) - 1) = of_int (int (length (Users e)) - 1)"
    using o by (cases "Users e") auto
  finally show ?thesis by (simp add: delta_of_def)
qed

lemma sum_over_users_swap:
  "(\<Sum>u\<in>U. sum_list (map (\<lambda>e. f u e) es)) = sum_list (map (\<lambda>e. \<Sum>u\<in>U. f u e) es)"
  by (induction es) (simp_all add: sum.distrib)

lemma closed_system_general:
  assumes "\<forall>e\<in>set es. OwnerID e \<in> set (Users e) \<and> distinct (Users e)"
  shows "(\<Sum>u\<in>(\<Union>e\<in>set es. set (Users e)). Balance (CalculateBalance es u)) = 0"
proof -
  let ?U = "\<Union>e\<in>set es. set (Users e)"
  have fin: "finite ?U" by simp
  have "(\<Sum>u\<in>?U. Balance (CalculateBalance es u)) = (\<Sum>u\<in>?U. sum_list (map (\<lambda>e. contrib u e) es))"
    by (simp add: Balance_CalculateBalance fst_expenses_loop)
  also have "\<dots> = sum_list (map (\<lambda>e. \<Sum>u\<in>?U. contrib u e) es)"
    by (rule sum_over_users_swap)
  also have "map (\<lambda>e. \<Sum>u\<in>?U. contrib u e) es = map (\<lambda>e. 0) es"
  proof (rule map_cong [OF refl])
    fix e assume e: "e \<in> set es"
    then have "set (Users e) \<subseteq> ?U" by blast
    with assms e fin show "(\<Sum>u\<in>?U. contrib u e) = 0"
      by (intro sum_contrib_one) auto
  qed
  finally show ?thesis by simp
qed

lemma join_assoc: "join (join a b) c = join a (join b c)"
  by (simp add: join_def Un_assoc add.assoc)

lemma join_commute: "join a b = join b a"
  by (simp add: join_def Un_commute add.commute)

lemma join_unit: "join a ({}, \<lambda>j. 0) = a"
  by (simp add: join_def)

lemma join_unit_left: "join ({}, \<lambda>j. 0) a = a"
  by (simp add: join_def)

lemma view_Nil: "view [] = ({}, \<lambda>j. 0)"
  by (simp add: view_def keys_of_def amount_at_def fun_eq_iff)

lemma view_bump: "view (bump k x R) = join (view R) ({k}, \<lambda>j. if j = k then x else 0)"
  by (auto simp: view_def join_def keys_of_def keys_bump amount_at_bump)

lemma view_bump_Nil: "view (bump k x []) = ({k}, \<lambda>j. if j = k then x else 0)"
  by (auto simp: view_def keys_of_def bump_def amount_at_def)

lemma view_row_amend:
  "view (row_amend u ownerID p xs R) = join (view R) (view (row_amend u ownerID p xs []))"
proof (induction xs arbitrary: R)
  case Nil
  then show ?case by (simp add: view_Nil join_unit)
next
  case (Cons x xs)
  have step: "view (row_amend u ownerID p xs (bump k v R))
                = join (view R) (view (row_amend u ownerID p xs (bump k v [])))" for k v
    using Cons.IH [of "bump k v R"] Cons.IH [of "bump k v []"]
    by (simp add: view_bump view_Nil join_unit_left join_assoc)
  show ?case
    using Cons.IH [of R] step [of ownerID p] step [of x "- p"] by auto
qed

lemma view_row_loop:
  "view (row (snd (expenses_loop es u (b, d))) u)
     = fold (\<lambda>e s. join s (expense_view u e)) es (view (row d u))"
proof (induction es arbitrary: b d)
  case Nil
  then show ?case by simp
next
  case (Cons e es)
  show ?case
  proof (cases "u \<in> set (Users e)")
    case False
    then show ?thesis
      using Cons.IH [of b d] by (simp add: userTookPart_iff expense_view_def join_unit)
  next
    case True
    then show ?thesis
      using Cons.IH
        view_row_amend [of u "OwnerID e" "share e" "Users e" "row d u"]
      by (simp add: userTookPart_iff expense_view_def Let_def row_amend_debts share_def)
  qed
qed

lemma view_userDebts:
  "view (userDebts es u) = fold (\<lambda>e s. join s (expense_view u e)) es ({}, \<lambda>j. 0)"
  using view_row_loop [of es u 0 Map.empty]
  by (simp add: userDebts_def) (simp add: row_def view_Nil)

lemma view_userDebts_perm:
  assumes "mset es = mset es'"
  shows "view (userDebts es u) = view (userDebts es' u)"
proof -
  have "fold (\<lambda>e s. join s (expense_view u e)) es = fold (\<lambda>e s. join s (expense_view u e)) es'"
  proof (rule fold_multiset_equiv [OF _ assms])
    fix x y
    show "(\<lambda>s. join s (expense_view u x)) \<circ> (\<lambda>s. join s (expense_view u y))
            = (\<lambda>s. join s (expense_view u y)) \<circ> (\<lambda>s. join s (expense_view u x))"
      by (simp add: fun_eq_iff join_assoc join_commute [of "expense_view u x"])
  qed
  then show ?thesis by (simp add: view_userDebts)
qed

lemma amount_at_member:
  "distinct (map fst R) \<Longrightarrow> (k, v) \<in> set R \<Longrightarrow> amount_at R k = v"
  by (simp add: amount_at_def)

lemma set_row_view:
  assumes "distinct (map fst R)"
  shows "set R = (\<lambda>k. (k, amount_at R k)) ` keys_of R"
proof (rule set_eqI)
  fix x :: "int \<times> rat"
  obtain k v where x: "x = (k, v)" by (cases x)
  show "x \<in> set R \<longleftrightarrow> x \<in> (\<lambda>k. (k, amount_at R k)) ` keys_of R"
  proof
    assume "x \<in> set R"
    with x assms have "amount_at R k = v" "k \<in> keys_of R"
      by (auto simp: amount_at_member keys_of_def intro: rev_image_eqI)
    with x show "x \<in> (\<lambda>k. (k, amount_at R k)) ` keys_of R" by auto
  next
    assume "x \<in> (\<lambda>k. (k, amount_at R k)) ` keys_of R"
    with x have k: "k \<in> keys_of R" and v: "v = amount_at R k" by auto
    from k obtain w where w: "(k, w) \<in> set R" by (auto simp: keys_of_def)
    with assms have "amount_at R k = w" by (rule amount_at_member)
    with w v x show "x \<in> set R" by simp
  qed
qed

lemma set_userDebts_perm:
  assumes "mset es = mset es'"
  shows "set (userDebts es u) = set (userDebts es' u)"
  using view_userDebts_perm [OF assms, of u]
    set_row_view [OF distinct_userDebts, of es u] set_row_view [OF distinct_userDebts, of es' u]
  by (simp add: view_def)

lemma balance_perm:
  assumes "mset es = mset es'"
  shows "Balance (CalculateBalance es u) = Balance (CalculateBalance es' u)"
proof -
  have "mset (map (contrib u) es) = mset (map (contrib u) es')"
    using assms by (metis mset_map)
  then have "sum_list (map (contrib u) es) = sum_list (map (contrib u) es')"
    by (metis sum_mset_sum_list)
  then show ?thesis by (simp add: Balance_CalculateBalance fst_expenses_loop)
qed

section \<open>The rounding of float64\<close>

text \<open>
  The binary exponent brackets its argument, and the rounded value of a non-zero \<open>x\<close>
  is an integer multiple of the quantum \<open>2 ^ e\<close>, with a significand of at most
  \<open>2 ^ 53\<close>, that lies within half a quantum of \<open>x\<close>; here \<open>e\<close> is 52 below the
  binary exponent of \<open>x\<close>, and at least -1074.
\<close>

lemma bit_length_unfold: "0 < n \<Longrightarrow> bit_length n = 1 + bit_length (n div 2)"
  by (subst bit_length.simps) simp

lemma bit_length_le0: "n \<le> 0 \<Longrightarrow> bit_length n = 0"
  by (subst bit_length.simps) simp

lemma bit_length_nonneg: "0 \<le> bit_length n"
proof (induction n rule: bit_length.induct)
  case (1 n)
  show ?case
  proof (cases "n \<le> 0")
    case True
    then show ?thesis by (simp add: bit_length_le0)
  next
    case False
    with 1 show ?thesis by (simp add: bit_length_unfold)
  qed
qed

lemma bit_length_pos: "0 < n \<Longrightarrow> 0 < bit_length n"
  using bit_length_nonneg [of "n div 2"] by (simp add: bit_length_unfold)

lemma bit_length_bounds:
  "0 < n \<Longrightarrow> 2 ^ nat (bit_length n - 1) \<le> n \<and> n < 2 ^ nat (bit_length n)"
proof (induction n rule: bit_length.induct)
  case (1 n)
  show ?case
  proof (cases "n = 1")
    case True
    then show ?thesis by (simp add: bit_length_unfold bit_length_le0)
  next
    case False
    with "1.prems" have h: "0 < n div 2" by simp
    from "1.IH" h "1.prems"
    have ih: "2 ^ nat (bit_length (n div 2) - 1) \<le> n div 2" "n div 2 < 2 ^ nat (bit_length (n div 2))"
      by auto
    have bl: "bit_length n = 1 + bit_length (n div 2)"
      using "1.prems" by (rule bit_length_unfold)
    have p: "0 < bit_length (n div 2)" using h by (rule bit_length_pos)
    then have e1: "nat (bit_length n - 1) = Suc (nat (bit_length (n div 2) - 1))"
      using bl by (simp add: Suc_nat_eq_nat_zadd1)
    have e2: "nat (bit_length n) = Suc (nat (bit_length (n div 2)))"
      using bl p by (simp add: Suc_nat_eq_nat_zadd1 add.commute)
    from ih show ?thesis unfolding e1 e2 by auto
  qed
qed

lemma round_half_even_error: "\<bar>of_int (round_half_even q) - q\<bar> \<le> 1 / 2"
proof -
  have "of_int \<lfloor>q\<rfloor> \<le> q" "q < of_int \<lfloor>q\<rfloor> + 1" by linarith+
  then show ?thesis
    by (auto simp: round_half_even_def Let_def abs_le_iff)
qed


lemma pow2_pos: "0 < pow2 e"
  by (simp add: pow2_def)

lemma pow2_nat: "0 \<le> e \<Longrightarrow> pow2 e = 2 ^ nat e"
  by (simp add: pow2_def)

lemma pow2_neg: "0 \<le> e \<Longrightarrow> pow2 (- e) = 1 / 2 ^ nat e"
  by (cases "e = 0") (simp_all add: pow2_def)

lemma pow2_Suc: "pow2 (e + 1) = 2 * pow2 e"
proof (cases "0 \<le> e")
  case True
  then show ?thesis by (simp add: pow2_def nat_add_distrib)
next
  case False
  then have "nat (- e) = Suc (nat (- (e + 1)))" by simp
  with False show ?thesis by (simp add: pow2_def)
qed

lemma ilog2_bounds:
  assumes "0 < x"
  shows "pow2 (ilog2 x) \<le> x \<and> x < pow2 (ilog2 x + 1)"
proof (cases "1 \<le> x")
  case True
  let ?n = "\<lfloor>x\<rfloor>"
  have n: "0 < ?n" using True by simp
  from bit_length_bounds [OF n]
  have lo: "2 ^ nat (bit_length ?n - 1) \<le> ?n" and hi: "?n < 2 ^ nat (bit_length ?n)" by auto
  have k: "0 \<le> bit_length ?n - 1" using bit_length_pos [OF n] by simp
  have "rat_of_int (2 ^ nat (bit_length ?n - 1)) \<le> of_int ?n" using lo by (simp only: of_int_le_iff)
  also have "\<dots> \<le> x" by simp
  finally have a: "pow2 (bit_length ?n - 1) \<le> x" using k by (simp add: pow2_nat)
  have "?n + 1 \<le> 2 ^ nat (bit_length ?n)" using hi by simp
  then have "rat_of_int (?n + 1) \<le> of_int (2 ^ nat (bit_length ?n))" by (simp only: of_int_le_iff)
  moreover have "x < of_int (?n + 1)" by linarith
  ultimately have "x < of_int (2 ^ nat (bit_length ?n))" by linarith
  then have b: "x < pow2 (bit_length ?n - 1 + 1)"
    using bit_length_nonneg [of ?n] by (simp add: pow2_nat)
  from a b True show ?thesis by (simp add: ilog2_def)
next
  case False
  let ?y = "1 / x"
  let ?m = "\<lceil>?y\<rceil> - 1"
  have y: "1 < ?y" using False assms by simp
  then have m: "0 < ?m" by simp
  from bit_length_bounds [OF m]
  have lo: "2 ^ nat (bit_length ?m - 1) \<le> ?m" and hi: "?m < 2 ^ nat (bit_length ?m)" by auto
  have bp: "0 < bit_length ?m" using m by (rule bit_length_pos)
  have "?y \<le> of_int (?m + 1)" by linarith
  also have "\<dots> \<le> of_int (2 ^ nat (bit_length ?m))" using hi by (simp only: of_int_le_iff)
  finally have "?y \<le> 2 ^ nat (bit_length ?m)" by simp
  then have "1 / 2 ^ nat (bit_length ?m) \<le> x"
    using assms by (simp add: field_simps)
  then have a: "pow2 (- bit_length ?m) \<le> x"
    using bp by (simp add: pow2_neg)
  have "rat_of_int (2 ^ nat (bit_length ?m - 1)) \<le> of_int ?m" using lo by (simp only: of_int_le_iff)
  moreover have "of_int ?m < ?y" by linarith
  ultimately have "2 ^ nat (bit_length ?m - 1) < ?y" by simp
  then have "x < 1 / 2 ^ nat (bit_length ?m - 1)"
    using assms by (simp add: field_simps)
  moreover have "pow2 (- bit_length ?m + 1) = 1 / 2 ^ nat (bit_length ?m - 1)"
    using pow2_neg [of "bit_length ?m - 1"] bp by simp
  ultimately have b: "x < pow2 (- bit_length ?m + 1)" by simp
  from a b False show ?thesis by (simp add: ilog2_def)
qed


lemma pow2_add_nat: "pow2 (e + int n) = 2 ^ n * pow2 e"
proof (induction n)
  case 0
  then show ?case by simp
next
  case (Suc n)
  have "e + int (Suc n) = (e + int n) + 1" by simp
  then have "pow2 (e + int (Suc n)) = pow2 ((e + int n) + 1)" by (rule arg_cong)
  also have "\<dots> = 2 * pow2 (e + int n)" by (rule pow2_Suc)
  finally show ?case using Suc by simp
qed

lemma pow2_mono: "a \<le> b \<Longrightarrow> pow2 a \<le> pow2 b"
proof -
  assume "a \<le> b"
  then obtain n where b: "b = a + int n" by (metis zle_iff_zadd)
  have "(1::rat) \<le> 2 ^ n" by simp
  then have "pow2 a \<le> 2 ^ n * pow2 a"
    using pow2_pos [of a] by (simp add: mult_le_cancel_right1)
  then show ?thesis by (simp add: b pow2_add_nat)
qed

lemma round_half_even_nonneg: "0 \<le> q \<Longrightarrow> 0 \<le> round_half_even q"
  by (auto simp: round_half_even_def Let_def)

lemma round_half_even_le: "q \<le> of_int n \<Longrightarrow> round_half_even q \<le> n"
proof -
  assume q: "q \<le> of_int n"
  show ?thesis
  proof (cases "q = of_int n")
    case True
    then show ?thesis by (simp add: round_half_even_def)
  next
    case False
    with q have "q < of_int n" by simp
    then have "\<lfloor>q\<rfloor> < n" by (simp add: floor_less_iff)
    then show ?thesis by (auto simp: round_half_even_def Let_def)
  qed
qed

lemma f64_round_nearest:
  assumes "x \<noteq> 0"
  defines "e \<equiv> max (ilog2 \<bar>x\<bar> - 52) (- 1074)"
  shows "\<exists>m. f64_round x = of_int m * pow2 e \<and> \<bar>m\<bar> \<le> 2 ^ 53
             \<and> \<bar>f64_round x - x\<bar> \<le> pow2 e / 2"
proof -
  let ?q = "\<bar>x\<bar> / pow2 e"
  let ?r = "round_half_even ?q"
  have pos: "0 < \<bar>x\<bar>" using assms(1) by simp
  have f: "f64_round x = sgn x * of_int ?r * pow2 e"
    using assms(1) by (simp add: f64_round_def e_def Let_def)
  have q0: "0 \<le> ?q" using pow2_pos [of e] by simp
  have r0: "0 \<le> ?r" using q0 by (rule round_half_even_nonneg)
  have "\<bar>x\<bar> < pow2 (ilog2 \<bar>x\<bar> + 1)" using ilog2_bounds [OF pos] by simp
  also have "\<dots> \<le> pow2 (e + int 53)"
    by (rule pow2_mono) (simp add: e_def)
  also have "\<dots> = 2 ^ 53 * pow2 e" by (rule pow2_add_nat)
  finally have "?q < 2 ^ 53" using pow2_pos [of e] by (simp add: field_simps)
  then have "?q \<le> of_int (2 ^ 53)" by simp
  then have r53: "?r \<le> 2 ^ 53" by (rule round_half_even_le)
  have err: "\<bar>of_int ?r - ?q\<bar> \<le> 1 / 2" by (rule round_half_even_error)
  have "of_int ?r * pow2 e - \<bar>x\<bar> = (of_int ?r - ?q) * pow2 e"
    using pow2_pos [of e] by (simp add: left_diff_distrib)
  then have "\<bar>of_int ?r * pow2 e - \<bar>x\<bar>\<bar> = \<bar>of_int ?r - ?q\<bar> * \<bar>pow2 e\<bar>"
    by (simp only: abs_mult)
  then have eq: "\<bar>of_int ?r * pow2 e - \<bar>x\<bar>\<bar> = \<bar>of_int ?r - ?q\<bar> * pow2 e"
    using pow2_pos [of e] by simp
  have "\<bar>of_int ?r - ?q\<bar> * pow2 e \<le> 1 / 2 * pow2 e"
    using err pow2_pos [of e] by (intro mult_right_mono) simp_all
  with eq have d: "\<bar>of_int ?r * pow2 e - \<bar>x\<bar>\<bar> \<le> pow2 e / 2" by simp
  show ?thesis
  proof (cases "0 < x")
    case True
    with f d r0 r53 show ?thesis
      by (intro exI [of _ ?r]) simp
  next
    case False
    with assms(1) have neg: "x < 0" by simp
    then have "\<bar>f64_round x - x\<bar> = \<bar>of_int ?r * pow2 e - \<bar>x\<bar>\<bar>"
      by (simp add: f abs_minus_commute)
    with f d r0 r53 neg show ?thesis
      by (intro exI [of _ "- ?r"]) simp
  qed
qed

section \<open>The ledger in float64 arithmetic on given amounts\<close>

text \<open>
  The roundings that the four expenses of 0.2, 0.4, 0.6 and 1.2 need: the amounts
  themselves, their halves, and the running amount that user 1 owes user 2, in the
  order 0.2, 0.4, 0.6, 1.2 and in the order 0.6, 0.4, 0.2, 1.2.
\<close>

lemma f64_facts:
  "f64_round (1 / 5) = 3602879701896397 / 18014398509481984"
  "f64_round (2 / 5) = 3602879701896397 / 9007199254740992"
  "f64_round (3 / 5) = 5404319552844595 / 9007199254740992"
  "f64_round (6 / 5) = 5404319552844595 / 4503599627370496"
  "f64_of_int 2 = 2"
  "f64_div (3602879701896397 / 18014398509481984) 2 = 3602879701896397 / 36028797018963968"
  "f64_div (3602879701896397 / 9007199254740992) 2 = 3602879701896397 / 18014398509481984"
  "f64_div (5404319552844595 / 9007199254740992) 2 = 5404319552844595 / 18014398509481984"
  "f64_div (5404319552844595 / 4503599627370496) 2 = 5404319552844595 / 9007199254740992"
  "f64_add 0 (3602879701896397 / 36028797018963968) = 3602879701896397 / 36028797018963968"
  "f64_add (3602879701896397 / 36028797018963968) (3602879701896397 / 18014398509481984) = 1351079888211149 / 4503599627370496"
  "f64_add (1351079888211149 / 4503599627370496) (5404319552844595 / 18014398509481984) = 1351079888211149 / 2251799813685248"
  "f64_sub (1351079888211149 / 2251799813685248) (5404319552844595 / 9007199254740992) = 1 / 9007199254740992"
  "f64_add 0 (5404319552844595 / 18014398509481984) = 5404319552844595 / 18014398509481984"
  "f64_add (5404319552844595 / 18014398509481984) (3602879701896397 / 18014398509481984) = 1 / 2"
  "f64_add (1 / 2) (3602879701896397 / 36028797018963968) = 5404319552844595 / 9007199254740992"
  "f64_sub (5404319552844595 / 9007199254740992) (5404319552844595 / 9007199254740992) = 0"
  by code_simp+

lemma Debit_CalculateBalance64:
  "Debit (CalculateBalance64 es u) =
     map (\<lambda>(k, v). \<lparr>UserID = k, Amount = v\<rparr>) (filter (\<lambda>(k, v). v > 0) (userDebts64 es u))"
  by (simp add: CalculateBalance64_def make_slices_eq)

lemma Credit_CalculateBalance64:
  "Credit (CalculateBalance64 es u) =
     map (\<lambda>(k, v). \<lparr>UserID = k, Amount = - v\<rparr>) (filter (\<lambda>(k, v). \<not> v > 0) (userDebts64 es u))"
  by (simp add: CalculateBalance64_def make_slices_eq)

lemmas ledger64_eval =
  userDebts64_def paid_by_2_def paid_by_1_def row_def amount_at_def allocate_def
  add_amount64_def sub_amount64_def Let_def f64_facts

lemma userDebts64_rising:
  "userDebts64 [paid_by_2 (2 / 10), paid_by_2 (4 / 10), paid_by_2 (6 / 10), paid_by_1 (12 / 10)] 1
     = [(2, 1 / 2 ^ 53)]"
  by (simp add: ledger64_eval)

lemma userDebts64_falling:
  "userDebts64 [paid_by_2 (6 / 10), paid_by_2 (4 / 10), paid_by_2 (2 / 10), paid_by_1 (12 / 10)] 1
     = [(2, 0)]"
  by (simp add: ledger64_eval)

text \<open>In exact arithmetic user 1 and user 2 are even after the four expenses.\<close>

lemma userDebts_exact:
  "userDebts [\<lparr>ExpenseID = 0, OwnerID = 2, Users = [1, 2], Amount = 2 / 10,
                  Description = ''Coffee'', CreatedAt = 0\<rparr>,
              \<lparr>ExpenseID = 0, OwnerID = 2, Users = [1, 2], Amount = 4 / 10,
                  Description = ''Coffee'', CreatedAt = 0\<rparr>,
              \<lparr>ExpenseID = 0, OwnerID = 2, Users = [1, 2], Amount = 6 / 10,
                  Description = ''Coffee'', CreatedAt = 0\<rparr>,
              \<lparr>ExpenseID = 0, OwnerID = 1, Users = [2, 1], Amount = 12 / 10,
                  Description = ''Coffee'', CreatedAt = 0\<rparr>] 1
     = [(2, 0)]"
  by (simp add: ledger_eval)

section \<open>Properties of the endpoint, the caches and the stores\<close>

lemma check_users_None_iff:
  "check_users userID xs seen = None
     \<longleftrightarrow> userID \<notin> set xs \<and> distinct xs \<and> (\<forall>x\<in>set xs. seen x = None)"
  by (induction xs arbitrary: seen) auto

lemma status_writeError:
  "status rw = None \<Longrightarrow> status (writeError rw code message) = Some code"
  by (simp add: writeError_def writeJSON_def WriteHeader_def)

lemma status_WriteHeader:
  "status rw = None \<Longrightarrow> status (WriteHeader code rw) = Some code"
  by (simp add: WriteHeader_def)

lemma status_kept:
  "status rw = Some c \<Longrightarrow> status (writeError rw code message) = Some c"
  "status rw = Some c \<Longrightarrow> status (WriteHeader code rw) = Some c"
  by (simp_all add: writeError_def writeJSON_def WriteHeader_def)

lemma not_valid_request_iff:
  "\<not> valid_request parseTime userID r \<longleftrightarrow>
     Body r = None
     \<or> (\<exists>e. Body r = Some e
           \<and> (reqDescription e = [] \<or> reqAmount e \<le> 0 \<or> parseTime (reqCreatedAt e) = None
              \<or> reqUsers e = [] \<or> userID \<in> set (reqUsers e) \<or> \<not> distinct (reqUsers e)))"
  by (auto simp: valid_request_def split: option.splits)

lemma postExpenses_invalid:
  assumes "\<not> valid_request parseTime userID r"
  shows "\<exists>message. postExpenses parseTime now r userID api rw
           = Inr (api, writeError (checked_method r rw) 400 message)"
  using assms
  by (auto simp: postExpenses_def valid_request_def checked_method_def Let_def
      check_users_None_iff split: option.splits)

lemma postExpenses_valid:
  assumes "valid_request parseTime userID r"
  shows "\<exists>e t. Body r = Some e \<and> parseTime (reqCreatedAt e) = Some t \<and>
           postExpenses parseTime now r userID api rw =
             (let d = (db api)\<lparr>expenses := expenses (db api) @
                        [\<lparr>ExpenseID = int (length (expenses (db api))) + 1, OwnerID = userID,
                           Users = reqUsers e @ [userID], Amount = reqAmount e,
                           Description = reqDescription e, CreatedAt = t\<rparr>]\<rparr>
              in case SetBalance (cache api) now (CalculateBalance (expenses d) userID) userID of
                   Inl f \<Rightarrow> Inl (f, api\<lparr>db := d\<rparr>, checked_method r rw)
                 | Inr c \<Rightarrow> Inr (api\<lparr>db := d, cache := c\<rparr>, WriteHeader 201 (checked_method r rw)))"
proof -
  from assms obtain e where e: "Body r = Some e"
    and v: "reqDescription e \<noteq> []" "0 < reqAmount e" "parseTime (reqCreatedAt e) \<noteq> None"
      "reqUsers e \<noteq> []" "userID \<notin> set (reqUsers e)" "distinct (reqUsers e)"
    by (auto simp: valid_request_def split: option.splits)
  from v(3) obtain t where t: "parseTime (reqCreatedAt e) = Some t" by auto
  have c: "check_users userID (reqUsers e) Map.empty = None"
    using v by (simp add: check_users_None_iff)
  have "postExpenses parseTime now r userID api rw =
             (let d = (db api)\<lparr>expenses := expenses (db api) @
                        [\<lparr>ExpenseID = int (length (expenses (db api))) + 1, OwnerID = userID,
                           Users = reqUsers e @ [userID], Amount = reqAmount e,
                           Description = reqDescription e, CreatedAt = t\<rparr>]\<rparr>
              in case SetBalance (cache api) now (CalculateBalance (expenses d) userID) userID of
                   Inl f \<Rightarrow> Inl (f, api\<lparr>db := d\<rparr>, checked_method r rw)
                 | Inr c \<Rightarrow> Inr (api\<lparr>db := d, cache := c\<rparr>, WriteHeader 201 (checked_method r rw)))"
  proof -
    have len: "\<not> length (reqUsers e) < 1" using v(4) by (cases "reqUsers e") auto
    have amt: "\<not> reqAmount e \<le> 0" using v(2) by simp
    have cr: "CreateExpense \<lparr>ExpenseID = 0, OwnerID = userID, Users = reqUsers e,
                 Amount = reqAmount e, Description = reqDescription e, CreatedAt = t\<rparr> (db api)
              = (db api)\<lparr>expenses := expenses (db api) @
                        [\<lparr>ExpenseID = int (length (expenses (db api))) + 1, OwnerID = userID,
                           Users = reqUsers e @ [userID], Amount = reqAmount e,
                           Description = reqDescription e, CreatedAt = t\<rparr>]\<rparr>"
      by (simp add: CreateExpense_def)
    show ?thesis
      unfolding postExpenses_def checked_method_def [symmetric]
      by (simp only: e option.case v(1) amt len t c cr if_False Let_def GetExpenses_def)
  qed
  with e t show ?thesis by blast
qed

lemma SetBalance_entry:
  assumes "SetBalance c now balance userID = Inr c'"
  shows "map_option fst (cache_entry c' userID) = Some balance"
    and "v \<noteq> userID \<Longrightarrow> cache_entry c' v = cache_entry c v"
  using assms
  by (auto simp: SetBalance_def setBalanceWithRdb_def cache_entry_def
      split: Cache.splits sum.splits if_splits)

lemma status_checked_method:
  "status rw = None \<Longrightarrow>
   status (checked_method r rw) = (if Method r = ''POST'' then None else Some 405)"
  by (simp add: checked_method_def status_writeError)

lemma postExpenses_valid_cases:
  assumes "valid_request parseTime userID r"
  obtains (stored) e t c where "Body r = Some e" "parseTime (reqCreatedAt e) = Some t"
      "SetBalance (cache api) now
         (CalculateBalance (expenses (db api) @ [stored_expense e t userID (db api)]) userID) userID
        = Inr c"
      "postExpenses parseTime now r userID api rw =
         Inr (api\<lparr>db := (db api)\<lparr>expenses := expenses (db api) @ [stored_expense e t userID (db api)]\<rparr>,
                  cache := c\<rparr>,
              WriteHeader 201 (checked_method r rw))"
  | (panic) e t f where "Body r = Some e" "parseTime (reqCreatedAt e) = Some t"
      "postExpenses parseTime now r userID api rw =
         Inl (f, api\<lparr>db := (db api)\<lparr>expenses := expenses (db api) @ [stored_expense e t userID (db api)]\<rparr>\<rparr>,
              checked_method r rw)"
proof -
  from postExpenses_valid [OF assms, of now api rw]
  obtain e t where e: "Body r = Some e" and t: "parseTime (reqCreatedAt e) = Some t"
    and p: "postExpenses parseTime now r userID api rw =
             (let d = (db api)\<lparr>expenses := expenses (db api) @ [stored_expense e t userID (db api)]\<rparr>
              in case SetBalance (cache api) now (CalculateBalance (expenses d) userID) userID of
                   Inl f \<Rightarrow> Inl (f, api\<lparr>db := d\<rparr>, checked_method r rw)
                 | Inr c \<Rightarrow> Inr (api\<lparr>db := d, cache := c\<rparr>, WriteHeader 201 (checked_method r rw)))"
    unfolding stored_expense_def by blast
  show thesis
  proof (cases "SetBalance (cache api) now
         (CalculateBalance (expenses (db api) @ [stored_expense e t userID (db api)]) userID) userID")
    case (Inl f)
    with p have "postExpenses parseTime now r userID api rw =
         Inl (f, api\<lparr>db := (db api)\<lparr>expenses := expenses (db api) @ [stored_expense e t userID (db api)]\<rparr>\<rparr>,
              checked_method r rw)"
      by (simp add: Let_def)
    with e t show thesis by (rule panic)
  next
    case (Inr c)
    with p have "postExpenses parseTime now r userID api rw =
         Inr (api\<lparr>db := (db api)\<lparr>expenses := expenses (db api) @ [stored_expense e t userID (db api)]\<rparr>,
                  cache := c\<rparr>,
              WriteHeader 201 (checked_method r rw))"
      by (simp add: Let_def)
    with e t Inr show thesis by (rule stored)
  qed
qed

lemma postExpenses_created:
  assumes res: "postExpenses parseTime now r userID api rw = Inr (api', rw')"
    and fresh: "status rw = None" and ok: "status rw' = Some 201"
  shows "valid_request parseTime userID r \<and> Method r = ''POST''"
proof -
  have v: "valid_request parseTime userID r"
  proof (rule ccontr)
    assume "\<not> valid_request parseTime userID r"
    from postExpenses_invalid [OF this, of now api rw] res
    obtain message where "rw' = writeError (checked_method r rw) 400 message" by auto
    with fresh ok show False
      by (cases "Method r = ''POST''")
        (simp_all add: checked_method_def status_writeError status_kept)
  qed
  have "rw' = WriteHeader 201 (checked_method r rw)"
    using v res by (cases rule: postExpenses_valid_cases [of parseTime userID r api now rw]) simp_all
  with fresh ok have "Method r = ''POST''"
    by (cases "Method r = ''POST''")
      (simp_all add: checked_method_def status_writeError status_kept)
  with v show ?thesis by simp
qed

lemma set_query_rows:
  "set (query_rows t) =
     {(e, snd ue) | e ue. e \<in> set (expenses_table t) \<and> ue \<in> set (expenses_users_table t)
                          \<and> row_id e = fst ue}"
  by (fastforce simp: query_rows_def image_iff)

lemma keys_map_entry: "fst ` set (AList.map_entry k f m) = fst ` set m"
  using dom_map_entry [of k f m] by (simp add: dom_map_of_conv_image_fst)

lemma keys_update: "fst ` set (AList.update k v m) = insert k (fst ` set m)"
  using dom_update [of k v m] by (simp add: dom_map_of_conv_image_fst)

lemma scan_rows_keys:
  "fst ` set (scan_rows rows m) = fst ` set m \<union> (row_id \<circ> fst) ` set rows"
proof (induction rows m rule: scan_rows.induct)
  case (1 m)
  then show ?case by simp
next
  case (2 e userID rest m)
  show ?case
  proof (cases "map_of m (row_id e)")
    case None
    with 2 show ?thesis by (auto simp: Let_def keys_map_entry keys_update)
  next
    case (Some x)
    then have "row_id e \<in> fst ` set m"
      by (metis domI dom_map_of_conv_image_fst)
    with 2 Some show ?thesis by (auto simp: Let_def keys_map_entry)
  qed
qed

lemma set_map_entry:
  "(k', x') \<in> set (AList.map_entry k f m) \<Longrightarrow>
     \<exists>x. (k', x) \<in> set m \<and> (x' = x \<or> (k' = k \<and> x' = f x))"
  by (induction m) (auto split: if_splits)

lemma set_update:
  "(k', x') \<in> set (AList.update k v m) \<Longrightarrow> (k', x') \<in> set m \<or> (k' = k \<and> x' = v)"
  by (induction m) (auto split: if_splits)

lemma scan_rows_ids:
  "\<forall>(k, x)\<in>set m. ExpenseID x = k \<Longrightarrow> \<forall>(k, x)\<in>set (scan_rows rows m). ExpenseID x = k"
proof (induction rows m rule: scan_rows.induct)
  case (1 m)
  then show ?case by simp
next
  case (2 e userID rest m)
  let ?m1 = "case map_of m (row_id e) of
                  None \<Rightarrow> AList.update (row_id e)
                            \<lparr>ExpenseID = row_id e, OwnerID = row_user_id e, Users = [],
                               Amount = row_amount e, Description = row_description e,
                               CreatedAt = row_created_at e\<rparr> m
                | Some x \<Rightarrow> m"
  let ?m2 = "AList.map_entry (row_id e) (\<lambda>x. x\<lparr>Users := Users x @ [userID]\<rparr>) ?m1"
  have m1: "\<forall>(k, x)\<in>set ?m1. ExpenseID x = k"
    using "2.prems" by (auto split: option.splits dest!: set_update)
  have m2: "\<forall>(k, x)\<in>set ?m2. ExpenseID x = k"
    using m1 by (auto dest!: set_map_entry)
  from "2.IH" [OF refl refl m2] show ?case by (simp add: Let_def)
qed

lemma PgGetExpenses_ids:
  "ExpenseID ` set (PgGetExpenses t u) =
     {row_id e | e. e \<in> set (expenses_table t) \<and> row_id e \<in> fst ` set (expenses_users_table t)}"
proof -
  have "ExpenseID ` set (PgGetExpenses t u) = fst ` set (scan_rows (query_rows t) [])"
    using scan_rows_ids [of "[]" "query_rows t"]
    by (force simp: PgGetExpenses_def image_iff)
  also have "\<dots> = (row_id \<circ> fst) ` set (query_rows t)"
    by (simp add: scan_rows_keys)
  also have "\<dots> = {row_id e | e. e \<in> set (expenses_table t) \<and> row_id e \<in> fst ` set (expenses_users_table t)}"
    unfolding set_query_rows by (force simp: image_iff)
  finally show ?thesis .
qed

text \<open>
  The scenario of \<^verbatim>\<open>TestPostExpenses\<close>: user 1 posts the meal to a new in-memory
  database and cache and is answered with status 201; the balance read next is 28.
\<close>

lemma post_meal_then_get_balance:
  "\<exists>api' rw' b api''.
      postExpenses parse_nonempty 0 meal_request 1
          \<lparr>db = NewInMemoryDatabase, cache = NewInMemoryCache\<rparr> fresh_response
        = Inr (api', rw')
      \<and> status rw' = Some 201
      \<and> getBalance 0 1 api' = Inr (b, api'') \<and> Balance b = 28"
  by (simp add: postExpenses_def meal_request_def parse_nonempty_def fresh_response_def
      NewInMemoryDatabase_def NewInMemoryCache_def SetBalance_def GetBalance_def getBalance_def
      CreateExpense_def GetExpenses_def WriteHeader_def ledger_eval)

section \<open>Reading the balance through the cache\<close>

text \<open>
  C1, as stated, at the in-memory cache: the cache holds no entry for user 1 and the
  database holds the meal; \<^verbatim>\<open>GetBalance\<close> returns the zero balance, not the computed
  one, whose balance is 28, and leaves the cache empty.
\<close>

theorem read_through_counterexample:
  "\<not> holds_entry NewInMemoryCache 0 1
   \<and> GetBalance NewInMemoryCache meal_db 0 1
       = Inr (\<lparr>Balance = 0, Debit = [], Credit = []\<rparr>, NewInMemoryCache)
   \<and> Balance (CalculateBalance (GetExpenses meal_db 1) 1) = 28"
  by (simp add: holds_entry_def cache_entry_def NewInMemoryCache_def GetBalance_def
      GetExpenses_def meal_db_def CreateExpense_def NewInMemoryDatabase_def meal_def ledger_eval)

text \<open>
  C1, amended. For the Redis cache: when the server can be reached and holds no live
  entry for user \<open>u\<close>, \<^verbatim>\<open>GetBalance\<close> returns the balance calculated from the
  expenses of the store and stores it under \<open>u\<close> with the time to live, and a second
  call at the same time returns the same balance from the cache, whatever the store
  holds by then. For the in-memory cache: when it holds no entry for \<open>u\<close>,
  \<^verbatim>\<open>GetBalance\<close> returns the zero balance and leaves the cache as it is.
\<close>

theorem read_through_on_miss:
  "(reachable r \<and> \<not> holds_entry (RedisCache r) now u \<longrightarrow>
      GetBalance (RedisCache r) d now u =
        Inr (CalculateBalance (GetExpenses d u) u,
             RedisCache (r\<lparr>stored := (stored r)(u \<mapsto> (CalculateBalance (GetExpenses d u) u, now + cacheEntryTTL))\<rparr>))
      \<and> GetBalance (RedisCache (r\<lparr>stored := (stored r)(u \<mapsto> (CalculateBalance (GetExpenses d u) u, now + cacheEntryTTL))\<rparr>)) d' now u =
        Inr (CalculateBalance (GetExpenses d u) u,
             RedisCache (r\<lparr>stored := (stored r)(u \<mapsto> (CalculateBalance (GetExpenses d u) u, now + cacheEntryTTL))\<rparr>)))
   \<and> (\<not> holds_entry (InMemoryCache m) now u \<longrightarrow>
        GetBalance (InMemoryCache m) d now u
          = Inr (\<lparr>Balance = 0, Debit = [], Credit = []\<rparr>, InMemoryCache m))"
proof -
  have redis: "GetBalance (RedisCache r) d now u =
        Inr (CalculateBalance (GetExpenses d u) u,
             RedisCache (r\<lparr>stored := (stored r)(u \<mapsto> (CalculateBalance (GetExpenses d u) u, now + cacheEntryTTL))\<rparr>))"
    if "reachable r" "\<not> holds_entry (RedisCache r) now u"
    using that
    by (auto simp: GetBalance_def rdb_Get_def setBalanceWithRdb_def holds_entry_def
        cache_entry_def Let_def split: option.splits)
  have again: "GetBalance (RedisCache (r\<lparr>stored := (stored r)(u \<mapsto> (b, now + cacheEntryTTL))\<rparr>)) d' now u =
        Inr (b, RedisCache (r\<lparr>stored := (stored r)(u \<mapsto> (b, now + cacheEntryTTL))\<rparr>))"
    if "reachable r" for b
    using that by (simp add: GetBalance_def rdb_Get_def cacheEntryTTL_def)
  have mem: "GetBalance (InMemoryCache m) d now u
          = Inr (\<lparr>Balance = 0, Debit = [], Credit = []\<rparr>, InMemoryCache m)"
    if "\<not> holds_entry (InMemoryCache m) now u"
    using that
    by (auto simp: GetBalance_def holds_entry_def cache_entry_def split: option.splits)
  from redis again mem show ?thesis by blast
qed

theorem read_through_on_miss_witness:
  "reachable empty_redis \<and> \<not> holds_entry (RedisCache empty_redis) 0 1
   \<and> GetBalance (RedisCache empty_redis) meal_db 0 1 =
        Inr (CalculateBalance (GetExpenses meal_db 1) 1,
             RedisCache (empty_redis\<lparr>stored := (stored empty_redis)
               (1 \<mapsto> (CalculateBalance (GetExpenses meal_db 1) 1, 0 + cacheEntryTTL))\<rparr>))
   \<and> GetBalance (RedisCache (empty_redis\<lparr>stored := (stored empty_redis)
               (1 \<mapsto> (CalculateBalance (GetExpenses meal_db 1) 1, 0 + cacheEntryTTL))\<rparr>))
          NewInMemoryDatabase 0 1 =
        Inr (CalculateBalance (GetExpenses meal_db 1) 1,
             RedisCache (empty_redis\<lparr>stored := (stored empty_redis)
               (1 \<mapsto> (CalculateBalance (GetExpenses meal_db 1) 1, 0 + cacheEntryTTL))\<rparr>))
   \<and> \<not> holds_entry (InMemoryCache Map.empty) 0 1
   \<and> GetBalance (InMemoryCache Map.empty) meal_db 0 1
        = Inr (\<lparr>Balance = 0, Debit = [], Credit = []\<rparr>, InMemoryCache Map.empty)"
proof -
  have h: "reachable empty_redis \<and> \<not> holds_entry (RedisCache empty_redis) 0 1"
    by (simp add: empty_redis_def holds_entry_def cache_entry_def)
  have g: "\<not> holds_entry (InMemoryCache Map.empty) 0 1"
    by (simp add: holds_entry_def cache_entry_def)
  from h g read_through_on_miss [of empty_redis 0 1 meal_db NewInMemoryDatabase Map.empty]
  show ?thesis by blast
qed

section \<open>The scenarios of the ledger test\<close>

text \<open>
  C2. One expense of 42 paid by user 1 for users 1, 2 and 3: user 1 has balance 28, is
  owed 14 by each of users 2 and 3 and owes nothing; users 2 and 3 have balance -14 and
  owe 14 to user 1. With a second expense of 8 paid by user 2 for users 1 and 2: user 1
  has balance 24 and is owed 10 by user 2 and 14 by user 3; user 2 has balance -10 and
  owes 10 to user 1; user 3 is unchanged. The slices are compared as sets of entries.
\<close>

theorem scenario_meal_then_coffee:
  "Balance (CalculateBalance [meal] 1) = 28
   \<and> set (Credit (CalculateBalance [meal] 1))
       = {\<lparr>UserID = 2, Amount = 14\<rparr>, \<lparr>UserID = 3, Amount = 14\<rparr>}
   \<and> Debit (CalculateBalance [meal] 1) = []
   \<and> Balance (CalculateBalance [meal] 2) = - 14
   \<and> set (Debit (CalculateBalance [meal] 2)) = {\<lparr>UserID = 1, Amount = 14\<rparr>}
   \<and> Credit (CalculateBalance [meal] 2) = []
   \<and> Balance (CalculateBalance [meal] 3) = - 14
   \<and> set (Debit (CalculateBalance [meal] 3)) = {\<lparr>UserID = 1, Amount = 14\<rparr>}
   \<and> Credit (CalculateBalance [meal] 3) = []
   \<and> Balance (CalculateBalance [meal, coffee] 1) = 24
   \<and> set (Credit (CalculateBalance [meal, coffee] 1))
       = {\<lparr>UserID = 2, Amount = 10\<rparr>, \<lparr>UserID = 3, Amount = 14\<rparr>}
   \<and> Debit (CalculateBalance [meal, coffee] 1) = []
   \<and> Balance (CalculateBalance [meal, coffee] 2) = - 10
   \<and> set (Debit (CalculateBalance [meal, coffee] 2)) = {\<lparr>UserID = 1, Amount = 10\<rparr>}
   \<and> Credit (CalculateBalance [meal, coffee] 2) = []
   \<and> Balance (CalculateBalance [meal, coffee] 3) = - 14
   \<and> set (Debit (CalculateBalance [meal, coffee] 3)) = {\<lparr>UserID = 1, Amount = 14\<rparr>}
   \<and> Credit (CalculateBalance [meal, coffee] 3) = []"
proof -
  have m1: "CalculateBalance [meal] 1 = \<lparr>Balance = 28, Debit = [],
      Credit = [\<lparr>UserID = 2, Amount = 14\<rparr>, \<lparr>UserID = 3, Amount = 14\<rparr>]\<rparr>"
    by (simp add: ledger_eval meal_def)
  have m2: "CalculateBalance [meal] 2 = \<lparr>Balance = - 14,
      Debit = [\<lparr>UserID = 1, Amount = 14\<rparr>], Credit = []\<rparr>"
    by (simp add: ledger_eval meal_def)
  have m3: "CalculateBalance [meal] 3 = \<lparr>Balance = - 14,
      Debit = [\<lparr>UserID = 1, Amount = 14\<rparr>], Credit = []\<rparr>"
    by (simp add: ledger_eval meal_def)
  have c1: "CalculateBalance [meal, coffee] 1 = \<lparr>Balance = 24, Debit = [],
      Credit = [\<lparr>UserID = 2, Amount = 10\<rparr>, \<lparr>UserID = 3, Amount = 14\<rparr>]\<rparr>"
    by (simp add: ledger_eval meal_def coffee_def)
  have c2: "CalculateBalance [meal, coffee] 2 = \<lparr>Balance = - 10,
      Debit = [\<lparr>UserID = 1, Amount = 10\<rparr>], Credit = []\<rparr>"
    by (simp add: ledger_eval meal_def coffee_def)
  have c3: "CalculateBalance [meal, coffee] 3 = \<lparr>Balance = - 14,
      Debit = [\<lparr>UserID = 1, Amount = 14\<rparr>], Credit = []\<rparr>"
    by (simp add: ledger_eval meal_def coffee_def)
  show ?thesis
    unfolding m1 m2 m3 c1 c2 c3 by simp
qed

text \<open>
  The same balances result from the participant lists as \<^verbatim>\<open>CreateExpense\<close> stores them,
  the owner last.
\<close>

lemma scenario_as_stored:
  "Balance (CalculateBalance [meal\<lparr>Users := [2, 3, 1]\<rparr>, coffee] 1) = 24
   \<and> set (Credit (CalculateBalance [meal\<lparr>Users := [2, 3, 1]\<rparr>, coffee] 1))
       = {\<lparr>UserID = 2, Amount = 10\<rparr>, \<lparr>UserID = 3, Amount = 14\<rparr>}
   \<and> Balance (CalculateBalance [meal\<lparr>Users := [2, 3, 1]\<rparr>, coffee] 2) = - 10
   \<and> set (Debit (CalculateBalance [meal\<lparr>Users := [2, 3, 1]\<rparr>, coffee] 2))
       = {\<lparr>UserID = 1, Amount = 10\<rparr>}
   \<and> Balance (CalculateBalance [meal\<lparr>Users := [2, 3, 1]\<rparr>, coffee] 3) = - 14
   \<and> set (Debit (CalculateBalance [meal\<lparr>Users := [2, 3, 1]\<rparr>, coffee] 3))
       = {\<lparr>UserID = 1, Amount = 14\<rparr>}"
  by (simp add: ledger_eval meal_def coffee_def)

section \<open>The closed system\<close>

text \<open>
  C3, as stated, at the expense that lists user 2 twice: the amount is positive, the
  owner is listed exactly once, another user is listed, and the users are 1 and 2; yet
  the balances of users 1 and 2 add up to 1.
\<close>

theorem closed_system_counterexample:
  "0 < Expense.Amount twice_listed
   \<and> count_list (Users twice_listed) (OwnerID twice_listed) = 1
   \<and> 2 \<in> set (Users twice_listed) \<and> 2 \<noteq> OwnerID twice_listed
   \<and> set (Users twice_listed) = {1, 2}
   \<and> Balance (CalculateBalance [twice_listed] 1) + Balance (CalculateBalance [twice_listed] 2) = 1"
  by (simp add: ledger_eval twice_listed_def)

text \<open>
  C3, amended. For every list of expenses in which each expense has a positive amount,
  lists its owner, lists at least one user other than the owner and lists no user
  twice, the balances of all users listed in any of the expenses add up to 0.
\<close>

theorem closed_system:
  assumes "\<forall>e\<in>set es. 0 < Expense.Amount e \<and> OwnerID e \<in> set (Users e)
             \<and> (\<exists>v\<in>set (Users e). v \<noteq> OwnerID e) \<and> distinct (Users e)"
  shows "(\<Sum>u\<in>(\<Union>e\<in>set es. set (Users e)). Balance (CalculateBalance es u)) = 0"
  using assms by (intro closed_system_general) blast

theorem closed_system_witness:
  "0 < Expense.Amount meal \<and> OwnerID meal \<in> set (Users meal)
   \<and> 2 \<in> set (Users meal) \<and> 2 \<noteq> OwnerID meal \<and> distinct (Users meal)
   \<and> 0 < Expense.Amount coffee \<and> OwnerID coffee \<in> set (Users coffee)
   \<and> 1 \<in> set (Users coffee) \<and> 1 \<noteq> OwnerID coffee \<and> distinct (Users coffee)
   \<and> (\<Sum>u\<in>(\<Union>e\<in>set [meal, coffee]. set (Users e)).
         Balance (CalculateBalance [meal, coffee] u)) = 0"
proof -
  have h: "\<forall>e\<in>set [meal, coffee]. 0 < Expense.Amount e \<and> OwnerID e \<in> set (Users e)
             \<and> (\<exists>v\<in>set (Users e). v \<noteq> OwnerID e) \<and> distinct (Users e)"
    by (simp add: meal_def coffee_def)
  have facts: "0 < Expense.Amount meal \<and> OwnerID meal \<in> set (Users meal)
   \<and> 2 \<in> set (Users meal) \<and> 2 \<noteq> OwnerID meal \<and> distinct (Users meal)
   \<and> 0 < Expense.Amount coffee \<and> OwnerID coffee \<in> set (Users coffee)
   \<and> 1 \<in> set (Users coffee) \<and> 1 \<noteq> OwnerID coffee \<and> distinct (Users coffee)"
    by (simp add: meal_def coffee_def)
  from facts closed_system [OF h] show ?thesis by simp
qed

section \<open>Well-formed balances\<close>

text \<open>
  C4, as stated, at the expense that lists user 2 twice: it lists its owner, and the
  balance of user 2 is -1 while credit minus debit is -2.
\<close>

theorem balance_well_formed_counterexample:
  "OwnerID twice_listed \<in> set (Users twice_listed)
   \<and> Balance (CalculateBalance [twice_listed] 2) = - 1
   \<and> sum_list (map Debt.Amount (Credit (CalculateBalance [twice_listed] 2)))
       - sum_list (map Debt.Amount (Debit (CalculateBalance [twice_listed] 2))) = - 2"
  by (simp add: ledger_eval twice_listed_def)

text \<open>
  C4, amended. For every list of expenses and every user, no two entries of the debit
  slice and no two entries of the credit slice have the same counterparty; and if each
  expense lists its owner and lists no user twice, the balance is the sum of the credit
  amounts minus the sum of the debit amounts.
\<close>

theorem balance_well_formed:
  "distinct (map UserID (Debit (CalculateBalance es u)))
   \<and> distinct (map UserID (Credit (CalculateBalance es u)))
   \<and> ((\<forall>e\<in>set es. OwnerID e \<in> set (Users e) \<and> distinct (Users e)) \<longrightarrow>
        Balance (CalculateBalance es u) =
          sum_list (map Debt.Amount (Credit (CalculateBalance es u)))
          - sum_list (map Debt.Amount (Debit (CalculateBalance es u))))"
  using distinct_Debit [of es u] distinct_Credit [of es u]
    balance_is_credit_minus_debit [of es u]
  by blast

theorem balance_well_formed_witness:
  "OwnerID meal \<in> set (Users meal) \<and> distinct (Users meal)
   \<and> OwnerID coffee \<in> set (Users coffee) \<and> distinct (Users coffee)
   \<and> distinct (map UserID (Debit (CalculateBalance [meal, coffee] 1)))
   \<and> distinct (map UserID (Credit (CalculateBalance [meal, coffee] 1)))
   \<and> Balance (CalculateBalance [meal, coffee] 1) =
        sum_list (map Debt.Amount (Credit (CalculateBalance [meal, coffee] 1)))
        - sum_list (map Debt.Amount (Debit (CalculateBalance [meal, coffee] 1)))"
proof -
  have facts: "OwnerID meal \<in> set (Users meal) \<and> distinct (Users meal)
      \<and> OwnerID coffee \<in> set (Users coffee) \<and> distinct (Users coffee)"
    by (simp add: meal_def coffee_def)
  then have h: "\<forall>e\<in>set [meal, coffee]. OwnerID e \<in> set (Users e) \<and> distinct (Users e)"
    by simp
  from facts h balance_well_formed [of "[meal, coffee]" 1] show ?thesis by blast
qed

section \<open>Reordering the expenses\<close>

text \<open>
  C5, as stated, for the program's \<^verbatim>\<open>float64\<close> amounts: three expenses of 0.2, 0.4 and
  0.6 paid by user 2 for users 1 and 2, and one of 1.2 paid by user 1 for users 2 and 1.
  Taken in this order, the result for user 1 has user 2 in the debit slice, with amount
  \<open>1 / 2 ^ 53\<close>, and an empty credit slice; with the first and the third expense
  exchanged, it has an empty debit slice and user 2 in the credit slice, with amount 0.
\<close>

theorem permutation_counterexample:
  "mset [paid_by_2 (2 / 10), paid_by_2 (4 / 10), paid_by_2 (6 / 10), paid_by_1 (12 / 10)]
     = mset [paid_by_2 (6 / 10), paid_by_2 (4 / 10), paid_by_2 (2 / 10), paid_by_1 (12 / 10)]
   \<and> Debit (CalculateBalance64
         [paid_by_2 (2 / 10), paid_by_2 (4 / 10), paid_by_2 (6 / 10), paid_by_1 (12 / 10)] 1)
       = [\<lparr>UserID = 2, Amount = 1 / 2 ^ 53\<rparr>]
   \<and> Credit (CalculateBalance64
         [paid_by_2 (2 / 10), paid_by_2 (4 / 10), paid_by_2 (6 / 10), paid_by_1 (12 / 10)] 1)
       = []
   \<and> Debit (CalculateBalance64
         [paid_by_2 (6 / 10), paid_by_2 (4 / 10), paid_by_2 (2 / 10), paid_by_1 (12 / 10)] 1)
       = []
   \<and> Credit (CalculateBalance64
         [paid_by_2 (6 / 10), paid_by_2 (4 / 10), paid_by_2 (2 / 10), paid_by_1 (12 / 10)] 1)
       = [\<lparr>UserID = 2, Amount = 0\<rparr>]"
proof -
  have "mset [paid_by_2 (2 / 10), paid_by_2 (4 / 10), paid_by_2 (6 / 10), paid_by_1 (12 / 10)]
     = mset [paid_by_2 (6 / 10), paid_by_2 (4 / 10), paid_by_2 (2 / 10), paid_by_1 (12 / 10)]"
    by (simp add: add_mset_commute)
  then show ?thesis
    unfolding Debit_CalculateBalance64 Credit_CalculateBalance64
      userDebts64_rising userDebts64_falling
    by simp
qed

text \<open>
  C5, amended. In exact rational arithmetic, for every list of expenses, every user and
  every permutation of the list, the balance is the same and the debit and the credit
  slices have the same entries. By the well-formedness of balances each slice has one
  entry per counterparty, so equal sets of entries are equal amounts per counterparty.
\<close>

theorem permutation_invariant:
  assumes "mset es = mset es'"
  shows "Balance (CalculateBalance es u) = Balance (CalculateBalance es' u)
       \<and> set (Debit (CalculateBalance es u)) = set (Debit (CalculateBalance es' u))
       \<and> set (Credit (CalculateBalance es u)) = set (Credit (CalculateBalance es' u))"
  using balance_perm [OF assms, of u] set_userDebts_perm [OF assms, of u]
  by (simp add: Debit_CalculateBalance Credit_CalculateBalance)

theorem permutation_invariant_witness:
  "mset [meal, coffee, gift] = mset [gift, coffee, meal]
   \<and> Balance (CalculateBalance [meal, coffee, gift] 2) = Balance (CalculateBalance [gift, coffee, meal] 2)
   \<and> set (Debit (CalculateBalance [meal, coffee, gift] 2)) = set (Debit (CalculateBalance [gift, coffee, meal] 2))
   \<and> set (Credit (CalculateBalance [meal, coffee, gift] 2)) = set (Credit (CalculateBalance [gift, coffee, meal] 2))"
proof -
  have h: "mset [meal, coffee, gift] = mset [gift, coffee, meal]"
    by (simp add: add.commute add.left_commute)
  from h permutation_invariant [OF h, of 2] show ?thesis by (rule conjI)
qed

section \<open>Writing the balance through the cache\<close>

text \<open>
  C6. When user \<open>userID\<close> sends a valid request and \<^verbatim>\<open>postExpenses\<close> returns, the store
  lists the expenses it listed before followed by the new expense, owner included; the
  cache entry of the user is the balance calculated from the expenses the store lists
  now; the cache entry of every other user is as it was; and a POST request with a
  fresh response is answered with status 201.
\<close>

theorem write_through_frame:
  assumes v: "valid_request parseTime userID r"
    and res: "postExpenses parseTime now r userID api rw = Inr (api', rw')"
  shows "(\<exists>e t. Body r = Some e \<and> parseTime (reqCreatedAt e) = Some t \<and>
            GetExpenses (db api') userID = GetExpenses (db api) userID @
              [\<lparr>ExpenseID = int (length (expenses (db api))) + 1, OwnerID = userID,
                 Users = reqUsers e @ [userID], Amount = reqAmount e,
                 Description = reqDescription e, CreatedAt = t\<rparr>])
       \<and> map_option fst (cache_entry (cache api') userID)
           = Some (CalculateBalance (GetExpenses (db api') userID) userID)
       \<and> (\<forall>v. v \<noteq> userID \<longrightarrow> cache_entry (cache api') v = cache_entry (cache api) v)
       \<and> (Method r = ''POST'' \<and> status rw = None \<longrightarrow> status rw' = Some 201)"
proof -
  obtain e t c where e: "Body r = Some e" and t: "parseTime (reqCreatedAt e) = Some t"
    and d: "db api' = (db api)\<lparr>expenses := expenses (db api) @ [stored_expense e t userID (db api)]\<rparr>"
    and c: "SetBalance (cache api) now (CalculateBalance (expenses (db api')) userID) userID = Inr c"
    and c': "cache api' = c"
    and w: "rw' = WriteHeader 201 (checked_method r rw)"
    using v res by (cases rule: postExpenses_valid_cases [of parseTime userID r api now rw]) auto
  from e t d have first: "\<exists>e t. Body r = Some e \<and> parseTime (reqCreatedAt e) = Some t \<and>
            GetExpenses (db api') userID = GetExpenses (db api) userID @
              [\<lparr>ExpenseID = int (length (expenses (db api))) + 1, OwnerID = userID,
                 Users = reqUsers e @ [userID], Amount = reqAmount e,
                 Description = reqDescription e, CreatedAt = t\<rparr>]"
    by (simp add: GetExpenses_def stored_expense_def)
  have last: "Method r = ''POST'' \<and> status rw = None \<longrightarrow> status rw' = Some 201"
    by (simp add: w checked_method_def status_WriteHeader)
  from SetBalance_entry [OF c] c' first last show ?thesis
    by (simp add: GetExpenses_def)
qed

theorem write_through_frame_witness:
  "valid_request parse_nonempty 2 coffee_request
   \<and> Method coffee_request = ''POST'' \<and> status fresh_response = None
   \<and> (\<exists>api' rw'.
      postExpenses parse_nonempty 0 coffee_request 2 meal_api fresh_response = Inr (api', rw')
      \<and> status rw' = Some 201
      \<and> length (GetExpenses (db api') 2) = 2
      \<and> map_option fst (cache_entry (cache api') 2)
           = Some (CalculateBalance (GetExpenses (db api') 2) 2)
      \<and> cache_entry (cache api') 1 = cache_entry (cache meal_api) 1)"
proof -
  have v: "valid_request parse_nonempty 2 coffee_request"
    by (simp add: valid_request_def coffee_request_def parse_nonempty_def)
  obtain api' rw' where
    res: "postExpenses parse_nonempty 0 coffee_request 2 meal_api fresh_response = Inr (api', rw')"
    by (simp add: postExpenses_def coffee_request_def parse_nonempty_def meal_api_def
        fresh_response_def SetBalance_def NewInMemoryCache_def WriteHeader_def Let_def)
  have fresh: "Method coffee_request = ''POST'' \<and> status fresh_response = None"
    by (simp add: fresh_response_def coffee_request_def)
  have len: "length (GetExpenses (db meal_api) 2) = 1"
    by (simp add: GetExpenses_def meal_api_def meal_db_def CreateExpense_def
        NewInMemoryDatabase_def)
  from write_through_frame [OF v res] len fresh
  have "status rw' = Some 201
      \<and> length (GetExpenses (db api') 2) = 2
      \<and> map_option fst (cache_entry (cache api') 2)
           = Some (CalculateBalance (GetExpenses (db api') 2) 2)
      \<and> cache_entry (cache api') 1 = cache_entry (cache meal_api) 1"
    by auto
  with v res fresh show ?thesis by blast
qed

section \<open>Validation before any change\<close>

text \<open>
  C7. A request that is not valid (its body does not decode, or its description is
  empty, its amount is not positive, its creation time does not parse, or its list of
  other users is empty, holds the submitter or holds a user twice) is answered without
  any change of the database or the cache, and a POST request with status 400. A valid
  request appends exactly one expense to the database, with a positive amount, the
  submitter as owner, and as \<^verbatim>\<open>Users\<close> the other users, non-empty, without duplicates and
  without the submitter, followed by the submitter.
\<close>

theorem validation_is_atomic:
  "(Body r = None
      \<or> (\<exists>e. Body r = Some e
            \<and> (reqDescription e = [] \<or> reqAmount e \<le> 0 \<or> parseTime (reqCreatedAt e) = None
               \<or> reqUsers e = [] \<or> userID \<in> set (reqUsers e) \<or> \<not> distinct (reqUsers e)))
    \<longrightarrow>
      (\<exists>rw'. postExpenses parseTime now r userID api rw = Inr (api, rw')
          \<and> (Method r = ''POST'' \<and> status rw = None \<longrightarrow> status rw' = Some 400)))
   \<and> (valid_request parseTime userID r \<longrightarrow>
      (\<exists>x others.
          expenses (db (state_after (postExpenses parseTime now r userID api rw)))
            = expenses (db api) @ [x]
          \<and> 0 < Expense.Amount x \<and> OwnerID x = userID \<and> Users x = others @ [userID]
          \<and> others \<noteq> [] \<and> distinct others \<and> userID \<notin> set others \<and> distinct (Users x)))"
proof (intro conjI impI)
  assume "Body r = None
      \<or> (\<exists>e. Body r = Some e
            \<and> (reqDescription e = [] \<or> reqAmount e \<le> 0 \<or> parseTime (reqCreatedAt e) = None
               \<or> reqUsers e = [] \<or> userID \<in> set (reqUsers e) \<or> \<not> distinct (reqUsers e)))"
  then have "\<not> valid_request parseTime userID r"
    by (simp add: not_valid_request_iff)
  from postExpenses_invalid [OF this, of now api rw]
  obtain message where m: "postExpenses parseTime now r userID api rw
           = Inr (api, writeError (checked_method r rw) 400 message)" by blast
  have "Method r = ''POST'' \<and> status rw = None \<longrightarrow>
          status (writeError (checked_method r rw) 400 message) = Some 400"
    by (simp add: checked_method_def status_writeError)
  with m show "\<exists>rw'. postExpenses parseTime now r userID api rw = Inr (api, rw')
          \<and> (Method r = ''POST'' \<and> status rw = None \<longrightarrow> status rw' = Some 400)"
    by blast
next
  assume v: "valid_request parseTime userID r"
  obtain e t where e: "Body r = Some e" and t: "parseTime (reqCreatedAt e) = Some t"
    and d: "expenses (db (state_after (postExpenses parseTime now r userID api rw)))
            = expenses (db api) @
                        [\<lparr>ExpenseID = int (length (expenses (db api))) + 1, OwnerID = userID,
                           Users = reqUsers e @ [userID], Amount = reqAmount e,
                           Description = reqDescription e, CreatedAt = t\<rparr>]"
    using v
    by (cases rule: postExpenses_valid_cases [of parseTime userID r api now rw])
      (auto simp: state_after_def stored_expense_def)
  from v e have "0 < reqAmount e" "reqUsers e \<noteq> []" "distinct (reqUsers e)"
    "userID \<notin> set (reqUsers e)"
    by (simp_all add: valid_request_def)
  with d show "\<exists>x others.
          expenses (db (state_after (postExpenses parseTime now r userID api rw)))
            = expenses (db api) @ [x]
          \<and> 0 < Expense.Amount x \<and> OwnerID x = userID \<and> Users x = others @ [userID]
          \<and> others \<noteq> [] \<and> distinct others \<and> userID \<notin> set others \<and> distinct (Users x)"
    by (intro exI [of _ "\<lparr>ExpenseID = int (length (expenses (db api))) + 1, OwnerID = userID,
                           Users = reqUsers e @ [userID], Amount = reqAmount e,
                           Description = reqDescription e, CreatedAt = t\<rparr>"]
        exI [of _ "reqUsers e"]) simp
qed

theorem validation_is_atomic_witness:
  "Body free_request
     = Some \<lparr>reqDescription = ''Coffee'', reqAmount = 0,
              reqCreatedAt = ''2016-01-03T15:04:05Z'', reqUsers = [1]\<rparr>
   \<and> (\<exists>rw'. postExpenses parse_nonempty 0 free_request 2 meal_api fresh_response
               = Inr (meal_api, rw') \<and> status rw' = Some 400)
   \<and> valid_request parse_nonempty 2 coffee_request
   \<and> (\<exists>x others.
        expenses (db (state_after
            (postExpenses parse_nonempty 0 coffee_request 2 meal_api fresh_response)))
          = expenses (db meal_api) @ [x]
        \<and> 0 < Expense.Amount x \<and> OwnerID x = 2 \<and> Users x = others @ [2]
        \<and> others \<noteq> [] \<and> distinct others \<and> 2 \<notin> set others \<and> distinct (Users x))"
proof -
  have b: "Body free_request
     = Some \<lparr>reqDescription = ''Coffee'', reqAmount = 0,
              reqCreatedAt = ''2016-01-03T15:04:05Z'', reqUsers = [1]\<rparr>"
    by (simp add: free_request_def)
  then have n: "\<exists>e. Body free_request = Some e
            \<and> (reqDescription e = [] \<or> reqAmount e \<le> 0
               \<or> parse_nonempty (reqCreatedAt e) = None
               \<or> reqUsers e = [] \<or> 2 \<in> set (reqUsers e) \<or> \<not> distinct (reqUsers e))"
    by simp
  have m: "Method free_request = ''POST'' \<and> status fresh_response = None"
    by (simp add: free_request_def fresh_response_def)
  have v: "valid_request parse_nonempty 2 coffee_request"
    by (simp add: valid_request_def coffee_request_def parse_nonempty_def)
  from n m validation_is_atomic [of free_request parse_nonempty 2 0 meal_api fresh_response]
  have first: "\<exists>rw'. postExpenses parse_nonempty 0 free_request 2 meal_api fresh_response
               = Inr (meal_api, rw') \<and> status rw' = Some 400"
    by blast
  from v validation_is_atomic [of coffee_request parse_nonempty 2 0 meal_api fresh_response]
  have second: "\<exists>x others.
        expenses (db (state_after
            (postExpenses parse_nonempty 0 coffee_request 2 meal_api fresh_response)))
          = expenses (db meal_api) @ [x]
        \<and> 0 < Expense.Amount x \<and> OwnerID x = 2 \<and> Users x = others @ [2]
        \<and> others \<noteq> [] \<and> distinct others \<and> 2 \<notin> set others \<and> distinct (Users x)"
    by blast
  from b first v second show ?thesis by blast
qed

section \<open>Listing the expenses of the store\<close>

text \<open>
  C8, as stated, at user 4 and a store holding the meal of users 1, 2 and 3: both
  handles list the meal, in which user 4 does not take part.
\<close>

theorem listing_counterexample:
  "GetExpenses meal_db 4
     = [\<lparr>ExpenseID = 1, OwnerID = 1, Users = [2, 3, 1], Amount = 42,
          Description = [], CreatedAt = 0\<rparr>]
   \<and> PgGetExpenses meal_tables 4
     = [\<lparr>ExpenseID = 1, OwnerID = 1, Users = [1, 2, 3], Amount = 42,
          Description = ''Dinner'', CreatedAt = 0\<rparr>]
   \<and> (4 :: int) \<notin> set [2, 3, 1]"
  by (simp add: GetExpenses_def meal_db_def CreateExpense_def NewInMemoryDatabase_def meal_def
      PgGetExpenses_def query_rows_def meal_tables_def)

text \<open>
  C8, amended. For every user and every state of the store, \<^verbatim>\<open>GetExpenses\<close> lists all
  expenses of the store, whoever the user is: the in-memory handle returns its slice of
  expenses, and the PostgreSQL handle returns the same for every user, with exactly the
  ids of the expenses that have a row of participants. So no expense in which the user
  takes part is left out, and expenses in which the user takes no part are listed too.
\<close>

theorem listing_is_all_expenses:
  "GetExpenses d u = expenses d
   \<and> {e \<in> set (expenses d). OwnerID e = u \<or> u \<in> set (Users e)} \<subseteq> set (GetExpenses d u)
   \<and> PgGetExpenses t u = PgGetExpenses t v
   \<and> ExpenseID ` set (PgGetExpenses t u)
       = {row_id e | e. e \<in> set (expenses_table t)
                        \<and> row_id e \<in> fst ` set (expenses_users_table t)}"
proof -
  have "{e \<in> set (expenses d). OwnerID e = u \<or> u \<in> set (Users e)} \<subseteq> set (expenses d)"
    by (rule Collect_restrict)
  with PgGetExpenses_ids [of t u] show ?thesis
    by (simp add: GetExpenses_def PgGetExpenses_def)
qed

section \<open>Who takes part in an expense\<close>

text \<open>
  C9. An expense counts toward the balance of a user exactly when the user is in its
  \<^verbatim>\<open>Users\<close>: taking an expense that does not list the user out of a history leaves the
  whole result for that user as it is, and an expense that lists the user changes the
  user's balance by the share, the amount divided by the length of \<^verbatim>\<open>Users\<close>: the
  owner gains the share once for every other entry, any other listed user loses one
  share. Being the owner does not count: an expense that does not list its owner leaves
  the owner's result as it is.
\<close>

theorem participation_by_Users:
  "(u \<notin> set (Users e) \<longrightarrow>
      CalculateBalance (es1 @ e # es2) u = CalculateBalance (es1 @ es2) u)
   \<and> (u \<in> set (Users e) \<longrightarrow>
        Balance (CalculateBalance (es1 @ e # es2) u) =
          Balance (CalculateBalance (es1 @ es2) u)
          + (if OwnerID e = u
             then of_int (int (length (Users e)) - 1)
                    * (Expense.Amount e / of_int (int (length (Users e))))
             else - (Expense.Amount e / of_int (int (length (Users e))))))
   \<and> (OwnerID e \<notin> set (Users e) \<longrightarrow>
        CalculateBalance (es1 @ e # es2) (OwnerID e) = CalculateBalance (es1 @ es2) (OwnerID e))"
proof -
  have skip: "CalculateBalance (es1 @ e # es2) v = CalculateBalance (es1 @ es2) v"
    if "v \<notin> set (Users e)" for v
  proof -
    have "expenses_loop (es1 @ e # es2) v st = expenses_loop (es1 @ es2) v st" for st
      using that
      by (cases "expenses_loop es1 v st") (simp add: expenses_loop_append userTookPart_iff)
    then show ?thesis
      by (simp add: CalculateBalance_def userDebts_def)
  qed
  have count: "Balance (CalculateBalance (es1 @ e # es2) u) =
      Balance (CalculateBalance (es1 @ es2) u) + delta_of e u" if "u \<in> set (Users e)"
    using that by (simp add: Balance_CalculateBalance fst_expenses_loop contrib_def)
  show ?thesis
    using skip [of u] skip [of "OwnerID e"] count
    by (simp add: delta_of_def Let_def)
qed

theorem participation_by_Users_witness:
  "OwnerID gift \<notin> set (Users gift)
   \<and> CalculateBalance ([meal] @ gift # [coffee]) 1 = CalculateBalance ([meal] @ [coffee]) 1
   \<and> 2 \<in> set (Users gift)
   \<and> Balance (CalculateBalance ([meal] @ gift # [coffee]) 2)
       = Balance (CalculateBalance ([meal] @ [coffee]) 2) - 5"
  using participation_by_Users [of 1 gift "[meal]" "[coffee]"]
    participation_by_Users [of 2 gift "[meal]" "[coffee]"]
  by (simp add: gift_def)

section \<open>Signs of the entries and counterparties that are even\<close>

text \<open>
  C10. In the result of \<^verbatim>\<open>CalculateBalance\<close> every debit entry has a strictly positive
  amount and every credit entry a non-negative amount; every counterparty of the
  accumulated map is in one of the two slices, and a counterparty whose accumulated
  amount is exactly 0 is in the credit slice with amount 0.
\<close>

theorem signs_and_zero_entries:
  "(\<forall>x\<in>set (Debit (CalculateBalance es u)). 0 < Debt.Amount x)
   \<and> (\<forall>x\<in>set (Credit (CalculateBalance es u)). 0 \<le> Debt.Amount x)
   \<and> fst ` set (userDebts es u)
       = UserID ` set (Debit (CalculateBalance es u)) \<union> UserID ` set (Credit (CalculateBalance es u))
   \<and> (\<forall>k. map_of (userDebts es u) k = Some 0 \<longrightarrow>
          \<lparr>UserID = k, Amount = 0\<rparr> \<in> set (Credit (CalculateBalance es u)))"
proof -
  have zero: "\<lparr>UserID = k, Amount = 0\<rparr> \<in> set (Credit (CalculateBalance es u))"
    if "map_of (userDebts es u) k = Some 0" for k
  proof -
    from that have "(k, 0) \<in> set (userDebts es u)" by (rule map_of_SomeD)
    then have "(\<lambda>(k, v). \<lparr>UserID = k, Amount = - v\<rparr>) (k, 0)
                 \<in> set (Credit (CalculateBalance es u))"
      unfolding Credit_CalculateBalance set_map set_filter by (intro imageI) simp
    then show ?thesis by simp
  qed
  have keys: "fst ` set (userDebts es u)
       = UserID ` set (Debit (CalculateBalance es u)) \<union> UserID ` set (Credit (CalculateBalance es u))"
    by (force simp: Debit_CalculateBalance Credit_CalculateBalance image_iff)
  show ?thesis
    using zero keys by (auto simp: Debit_CalculateBalance Credit_CalculateBalance)
qed

theorem signs_and_zero_entries_witness:
  "map_of (userDebts even_history 1) 2 = Some 0
   \<and> \<lparr>UserID = 2, Amount = 0\<rparr> \<in> set (Credit (CalculateBalance even_history 1))
   \<and> set (Debit (CalculateBalance even_history 1)) = {\<lparr>UserID = 3, Amount = 5\<rparr>}
   \<and> set (Credit (CalculateBalance even_history 1))
       = {\<lparr>UserID = 2, Amount = 0\<rparr>, \<lparr>UserID = 4, Amount = 3\<rparr>}"
proof -
  have r: "userDebts even_history 1 = [(2, 0), (3, 5), (4, - 3)]"
    by (simp add: ledger_eval even_history_def coffee_def)
  have b: "CalculateBalance even_history 1 =
      \<lparr>Balance = - 2, Debit = [\<lparr>UserID = 3, Amount = 5\<rparr>],
         Credit = [\<lparr>UserID = 2, Amount = 0\<rparr>, \<lparr>UserID = 4, Amount = 3\<rparr>]\<rparr>"
    by (simp add: ledger_eval even_history_def coffee_def)
  have h: "map_of (userDebts even_history 1) 2 = Some 0"
    by (simp add: r)
  from signs_and_zero_entries [of even_history 1] h
  have "\<lparr>UserID = 2, Amount = 0\<rparr> \<in> set (Credit (CalculateBalance even_history 1))"
    by blast
  with h show ?thesis by (simp add: b)
qed

end
